theory Spec2Isabelle
  imports Main "HOL-Library.Monad_Syntax"
begin

section \<open>The expression tree\<close>

text \<open>
  The filter compiler of package \<^verbatim>\<open>paint\<close> works on the syntax tree of the expression
  library: \<^verbatim>\<open>buildCriteria\<close> parses the filter, runs four rewriting visitors over the tree
  and lets the \<^verbatim>\<open>queryBuilder\<close> visitor emit the criteria.  A node is one constructor of
  the datatype below; a range \<^verbatim>\<open>lo..hi\<close> is a \<^verbatim>\<open>BinaryNode\<close> with operator \<^verbatim>\<open>..\<close>, as the
  parser builds it.  Operators and names are Go strings.  The payload of a float literal
  is kept abstract (type \<open>'f\<close>); no arithmetic is done on it, and its equality is the
  one of Go for every number but NaN, which no literal is.  Of the node kinds of the
  library that the visitors do not name, \<^verbatim>\<open>NilNode\<close> and \<^verbatim>\<open>ArrayNode\<close> are kept; the others
  (constants of the optimizer, properties, indices, slices, methods, builtins, closures,
  maps) are not in the grammar of the filters.

  A slot of the Go tree holds a pointer to a node; here it holds the subtree.  The
  expanders and the DNF rewrite put one operand under two parents, and the tree then has
  two copies of it.  The Go code and the model agree as long as nothing is changed inside
  a shared operand: in the Go code a change made on the way through one parent is seen
  on the way through the other.  The statements below do not depend on that: they are
  about single calls of \<^verbatim>\<open>Enter\<close> and \<^verbatim>\<open>Exit\<close>, about the loop of \<^verbatim>\<open>toDNF\<close>, about filters
  whose shared operands are identifiers, or they hold for every tree (the generator only
  reads the tree).
\<close>

datatype 'f node =
    NilNode
  | IdentifierNode string
  | IntegerNode int
  | FloatNode 'f
  | BoolNode bool
  | StringNode string
  | UnaryNode string "'f node"
  | BinaryNode string "'f node" "'f node"
  | MatchesNode "'f node" "'f node"
  | FunctionNode string "'f node list"
  | ConditionalNode "'f node" "'f node" "'f node"
  | ArrayNode "'f node list"

text \<open>
  \<^verbatim>\<open>ast.Walk(node, visitor)\<close>: call \<^verbatim>\<open>Enter\<close> on the slot, walk the child slots from left
  to right, call \<^verbatim>\<open>Exit\<close> on the slot.  \<open>walk\<close> is the traversal for a visitor whose
  \<^verbatim>\<open>Enter\<close> only updates the visitor (\<open>en\<close>) and whose \<^verbatim>\<open>Exit\<close> may patch the slot (\<open>ex\<close>
  returns the node the slot holds afterwards).  At \<^verbatim>\<open>Exit\<close> the children are the patched
  ones.
\<close>

fun walk :: "('f node \<Rightarrow> 's \<Rightarrow> 's) \<Rightarrow> ('f node \<Rightarrow> 's \<Rightarrow> 'f node \<times> 's) \<Rightarrow>
    'f node \<Rightarrow> 's \<Rightarrow> 'f node \<times> 's"
and walk_nodes :: "('f node \<Rightarrow> 's \<Rightarrow> 's) \<Rightarrow> ('f node \<Rightarrow> 's \<Rightarrow> 'f node \<times> 's) \<Rightarrow>
    'f node list \<Rightarrow> 's \<Rightarrow> 'f node list \<times> 's"
where
  "walk en ex (UnaryNode op x) s =
     (case walk en ex x (en (UnaryNode op x) s) of
        (x', s1) \<Rightarrow> ex (UnaryNode op x') s1)"
| "walk en ex (BinaryNode op l r) s =
     (case walk en ex l (en (BinaryNode op l r) s) of
        (l', s1) \<Rightarrow> (case walk en ex r s1 of
        (r', s2) \<Rightarrow> ex (BinaryNode op l' r') s2))"
| "walk en ex (MatchesNode l r) s =
     (case walk en ex l (en (MatchesNode l r) s) of
        (l', s1) \<Rightarrow> (case walk en ex r s1 of
        (r', s2) \<Rightarrow> ex (MatchesNode l' r') s2))"
| "walk en ex (FunctionNode name args) s =
     (case walk_nodes en ex args (en (FunctionNode name args) s) of
        (args', s1) \<Rightarrow> ex (FunctionNode name args') s1)"
| "walk en ex (ConditionalNode c e1 e2) s =
     (case walk en ex c (en (ConditionalNode c e1 e2) s) of
        (c', s1) \<Rightarrow> (case walk en ex e1 s1 of
        (e1', s2) \<Rightarrow> (case walk en ex e2 s2 of
        (e2', s3) \<Rightarrow> ex (ConditionalNode c' e1' e2') s3)))"
| "walk en ex (ArrayNode ns) s =
     (case walk_nodes en ex ns (en (ArrayNode ns) s) of
        (ns', s1) \<Rightarrow> ex (ArrayNode ns') s1)"
| "walk en ex NilNode s = ex NilNode (en NilNode s)"
| "walk en ex (IdentifierNode v) s = ex (IdentifierNode v) (en (IdentifierNode v) s)"
| "walk en ex (IntegerNode v) s = ex (IntegerNode v) (en (IntegerNode v) s)"
| "walk en ex (FloatNode v) s = ex (FloatNode v) (en (FloatNode v) s)"
| "walk en ex (BoolNode v) s = ex (BoolNode v) (en (BoolNode v) s)"
| "walk en ex (StringNode v) s = ex (StringNode v) (en (StringNode v) s)"
| "walk_nodes en ex [] s = ([], s)"
| "walk_nodes en ex (n # ns) s =
     (case walk en ex n s of
        (n', s1) \<Rightarrow> (case walk_nodes en ex ns s1 of
        (ns', s2) \<Rightarrow> (n' # ns', s2)))"

subsection \<open>The node tests of expr.go\<close>

text \<open>
  Each test returns the binary (unary) node behind the interface value, or \<^verbatim>\<open>nil\<close>; here
  the fields of the node, or \<open>None\<close>.
\<close>

definition asBinaryIn :: "'f node \<Rightarrow> (string \<times> 'f node \<times> 'f node) option" where
  "asBinaryIn n =
     (case n of
        BinaryNode op l r \<Rightarrow> if op = ''in'' \<or> op = ''not in'' then Some (op, l, r) else None
      | _ \<Rightarrow> None)"

definition asBinaryAnd :: "'f node \<Rightarrow> (string \<times> 'f node \<times> 'f node) option" where
  "asBinaryAnd n =
     (case n of
        BinaryNode op l r \<Rightarrow> if op = ''and'' \<or> op = ''&&'' then Some (op, l, r) else None
      | _ \<Rightarrow> None)"

definition asBinaryOr :: "'f node \<Rightarrow> (string \<times> 'f node \<times> 'f node) option" where
  "asBinaryOr n =
     (case n of
        BinaryNode op l r \<Rightarrow> if op = ''or'' \<or> op = ''||'' then Some (op, l, r) else None
      | _ \<Rightarrow> None)"

definition asUnaryNot :: "'f node \<Rightarrow> (string \<times> 'f node) option" where
  "asUnaryNot n =
     (case n of
        UnaryNode op x \<Rightarrow> if op = ''not'' \<or> op = ''!'' then Some (op, x) else None
      | _ \<Rightarrow> None)"

section \<open>Membership expander\<close>

text \<open>
  \<^verbatim>\<open>expandInArray.Exit\<close>.  The loop over the array elements patches the slot once per
  element: the first element puts the comparison there, every later one wraps what the
  slot holds in an \<^verbatim>\<open>or\<close>.  \<open>array_loop\<close> is that loop, with the index \<open>i\<close> and the
  content \<open>cur\<close> of the slot.
\<close>

fun array_loop :: "'f node \<Rightarrow> 'f node list \<Rightarrow> nat \<Rightarrow> 'f node \<Rightarrow> 'f node" where
  "array_loop left [] i cur = cur"
| "array_loop left (n # ns) i cur =
     array_loop left ns (i + 1)
       (if i = 0 then BinaryNode ''=='' left n
        else BinaryNode ''or'' cur (BinaryNode ''=='' left n))"

definition expandInArray_Exit :: "'f node \<Rightarrow> 'f node" where
  "expandInArray_Exit node =
     (case asBinaryIn node of
        Some (op, left, right) \<Rightarrow>
          (case right of
             ArrayNode ns \<Rightarrow>
               (let node1 = (if length ns = 0 then BoolNode False
                             else array_loop left ns 0 node)
                in if op = ''not in'' then UnaryNode ''not'' node1 else node1)
           | _ \<Rightarrow> node)
      | None \<Rightarrow> node)"

text \<open>
  \<^verbatim>\<open>getValue\<close> returns a Go interface value: the payload of a literal, or the node pointer
  itself for any other node.  \<^verbatim>\<open>==\<close> on two interface values holds when both have the same
  dynamic type and equal contents; two node pointers are equal when they are the same
  object.  The two bounds of a range are two objects of the tree, so \<open>VNode\<close> values
  compare unequal.
\<close>

datatype 'f go_value = VNil | VInt int | VFloat 'f | VBool bool | VString string
  | VNode "'f node"

definition getValue :: "'f node \<Rightarrow> 'f go_value" where
  "getValue n =
     (case n of
        NilNode \<Rightarrow> VNil
      | IntegerNode v \<Rightarrow> VInt v
      | FloatNode v \<Rightarrow> VFloat v
      | BoolNode v \<Rightarrow> VBool v
      | StringNode v \<Rightarrow> VString v
      | _ \<Rightarrow> VNode n)"

fun value_eq :: "'f go_value \<Rightarrow> 'f go_value \<Rightarrow> bool" where
  "value_eq VNil VNil = True"
| "value_eq (VInt a) (VInt b) = (a = b)"
| "value_eq (VFloat a) (VFloat b) = (a = b)"
| "value_eq (VBool a) (VBool b) = (a = b)"
| "value_eq (VString a) (VString b) = (a = b)"
| "value_eq _ _ = False"

definition expandInRange_Exit :: "'f node \<Rightarrow> 'f node" where
  "expandInRange_Exit node =
     (case asBinaryIn node of
        Some (op, left, right) \<Rightarrow>
          (case right of
             BinaryNode rop lo hi \<Rightarrow>
               if rop = ''..'' then
                 (let node1 =
                    (if value_eq (getValue lo) (getValue hi)
                     then BinaryNode ''=='' left lo
                     else BinaryNode ''and'' (BinaryNode ''>='' left lo)
                                             (BinaryNode ''<='' left hi))
                  in if op = ''not in'' then UnaryNode ''not'' node1 else node1)
               else node
           | _ \<Rightarrow> node)
      | None \<Rightarrow> node)"

text \<open>Both expanders have an empty \<^verbatim>\<open>Enter\<close> and no fields.\<close>

definition no_Enter :: "'f node \<Rightarrow> unit \<Rightarrow> unit" where
  "no_Enter node s = s"

definition expandInArray :: "'f node \<Rightarrow> 'f node" where
  "expandInArray node = fst (walk no_Enter (\<lambda>n s. (expandInArray_Exit n, s)) node ())"

definition expandInRange :: "'f node \<Rightarrow> 'f node" where
  "expandInRange node = fst (walk no_Enter (\<lambda>n s. (expandInRange_Exit n, s)) node ())"

text \<open>
  The reading of the specification for an array: the left-associated disjunction of the
  comparisons of \<open>left\<close> with each element, in array order.
\<close>

definition equalities :: "'f node \<Rightarrow> 'f node list \<Rightarrow> 'f node list" where
  "equalities left ns = map (BinaryNode ''=='' left) ns"

definition left_disjunction :: "'f node list \<Rightarrow> 'f node" where
  "left_disjunction es = foldl (BinaryNode ''or'') (hd es) (tl es)"

definition negate_if :: "bool \<Rightarrow> 'f node \<Rightarrow> 'f node" where
  "negate_if b n = (if b then UnaryNode ''not'' n else n)"

definition is_literal :: "'f node \<Rightarrow> bool" where
  "is_literal n =
     (case n of NilNode \<Rightarrow> True | IntegerNode v \<Rightarrow> True | FloatNode v \<Rightarrow> True
      | BoolNode v \<Rightarrow> True | StringNode v \<Rightarrow> True | _ \<Rightarrow> False)"

section \<open>Negation normalizer\<close>

text \<open>
  \<^verbatim>\<open>operatorPairs\<close> is the map literal of expr.go; \<^verbatim>\<open>init\<close> adds the reverse of every pair.
  Going over the map while the reverse pairs are being added can only visit a pair that
  is already the reverse of a pair of the map, so the result does not depend on the
  order: it is the literal with every reversed pair added.
\<close>

definition operatorPairs_literal :: "(string \<times> string) list" where
  "operatorPairs_literal =
     [(''and'', ''or''), (''&&'', ''||''), (''=='', ''!=''), (''>='', ''<''),
      (''>'', ''<=''), (''in'', ''not in'')]"

definition operatorPairs :: "string \<Rightarrow> string option" where
  "operatorPairs =
     fold (\<lambda>(k, v) m. m(v \<mapsto> k)) operatorPairs_literal (map_of operatorPairs_literal)"

text \<open>
  \<^verbatim>\<open>distributeAndFoldNot.Enter\<close> rewrites the slot before the walk goes into the children,
  so the walk visits the children of the rewritten node.  On a double negation
  \<^verbatim>\<open>Enter\<close> itself walks the inner operand and puts the result into the slot.
  \<open>not_Enter\<close> is \<^verbatim>\<open>Enter\<close>, \<open>not_walk\<close> is \<^verbatim>\<open>ast.Walk\<close> with this visitor (\<^verbatim>\<open>Exit\<close> is empty).
  The recursion is nested; \<open>weight\<close> is the measure that shows that it ends.
\<close>

fun weight :: "'f node \<Rightarrow> nat" where
  "weight (UnaryNode op x) = 2 * weight x"
| "weight (BinaryNode op l r) = 1 + weight l + weight r"
| "weight (MatchesNode l r) = 1 + weight l + weight r"
| "weight (FunctionNode name args) = 1 + sum_list (map weight args)"
| "weight (ConditionalNode c e1 e2) = 1 + weight c + weight e1 + weight e2"
| "weight (ArrayNode ns) = 1 + sum_list (map weight ns)"
| "weight _ = 1"

lemma weight_pos: "0 < weight n"
  by (induction n) auto

lemma sum_list_weight_mono:
  "(\<And>x. x \<in> set xs \<Longrightarrow> weight (f x) \<le> weight x) \<Longrightarrow>
   sum_list (map weight (map f xs)) \<le> sum_list (map weight xs)"
  by (induction xs) (auto simp: add_mono)

lemma weight_member: "x \<in> set xs \<Longrightarrow> weight x \<le> sum_list (map weight xs)"
  by (induction xs) auto

function not_Enter :: "'f node \<Rightarrow> 'f node"
and not_walk :: "'f node \<Rightarrow> 'f node"
where
  "not_Enter node =
     (case node of
        UnaryNode uop operand \<Rightarrow>
          if uop = ''not'' \<or> uop = ''!'' then
            (case operand of
               BinaryNode bop left right \<Rightarrow>
                 (case operatorPairs bop of
                    Some op \<Rightarrow>
                      if bop = ''and'' \<or> bop = ''&&'' \<or> bop = ''or'' \<or> bop = ''||''
                      then BinaryNode op (UnaryNode uop left) (UnaryNode uop right)
                      else BinaryNode op left right
                  | None \<Rightarrow> node)
             | UnaryNode uop2 inner \<Rightarrow>
                 if uop2 = ''not'' \<or> uop2 = ''!'' then not_walk inner else node
             | BoolNode b \<Rightarrow> BoolNode (\<not> b)
             | _ \<Rightarrow> node)
          else node
      | _ \<Rightarrow> node)"
| "not_walk node =
     (case not_Enter node of
        UnaryNode op x \<Rightarrow> UnaryNode op (not_walk x)
      | BinaryNode op l r \<Rightarrow> BinaryNode op (not_walk l) (not_walk r)
      | MatchesNode l r \<Rightarrow> MatchesNode (not_walk l) (not_walk r)
      | FunctionNode name args \<Rightarrow> FunctionNode name (map not_walk args)
      | ConditionalNode c e1 e2 \<Rightarrow> ConditionalNode (not_walk c) (not_walk e1) (not_walk e2)
      | ArrayNode ns \<Rightarrow> ArrayNode (map not_walk ns)
      | n \<Rightarrow> n)"
  by pat_completeness auto

termination
proof -
  have enter_le: "not_Enter_not_walk_dom (Inl n) \<Longrightarrow> weight (not_Enter n) \<le> weight n"
    and walk_le: "not_Enter_not_walk_dom (Inr m) \<Longrightarrow> weight (not_walk m) \<le> weight m"
    for n m :: "'f node"
  proof (induction n and m rule: not_Enter_not_walk.pinduct)
    case (1 node)
    have ih: "weight (not_walk c) \<le> 4 * weight c"
      if "node = UnaryNode a (UnaryNode b c)" "a = ''not'' \<or> a = ''!''"
         "b = ''not'' \<or> b = ''!''" for a b c
      using "1.IH" [of a "UnaryNode b c" b c] that by simp
    show ?case
      using "1.hyps" ih
      by (auto simp: not_Enter.psimps split: node.splits option.splits)
  next
    case (2 node)
    show ?case
    proof (cases "not_Enter node")
      case (FunctionNode name args)
      then show ?thesis
        using 2 sum_list_weight_mono [of args not_walk]
        by (auto simp: not_walk.psimps)
    next
      case (ArrayNode ns)
      then show ?thesis
        using 2 sum_list_weight_mono [of ns not_walk]
        by (auto simp: not_walk.psimps)
    qed (use 2 in \<open>auto simp: not_walk.psimps\<close>)
  qed
  show ?thesis
  proof (relation "measure (\<lambda>x. case x of Inl n \<Rightarrow> 2 * weight n | Inr n \<Rightarrow> 2 * weight n + 1)",
      goal_cases)
    case 1
    show ?case by simp
  next
    case (2 node uop operand uop2 inner)
    then show ?case using weight_pos [of inner] by simp
  next
    case (3 node)
    show ?case by simp
  next
    case (4 node op x)
    then show ?case using enter_le [of node] weight_pos [of x] by simp
  next
    case (5 node op l r)
    then show ?case using enter_le [of node] by simp
  next
    case (6 node op l r)
    then show ?case using enter_le [of node] by simp
  next
    case (7 node l r)
    then show ?case using enter_le [of node] by simp
  next
    case (8 node l r)
    then show ?case using enter_le [of node] by simp
  next
    case (9 node name args x)
    then show ?case using enter_le [of node] weight_member [of x args] by simp
  next
    case (10 node c e1 e2)
    then show ?case using enter_le [of node] by simp
  next
    case (11 node c e1 e2)
    then show ?case using enter_le [of node] by simp
  next
    case (12 node c e1 e2)
    then show ?case using enter_le [of node] by simp
  next
    case (13 node ns x)
    then show ?case using enter_le [of node] weight_member [of x ns] by simp
  qed
qed

declare not_Enter.simps [simp del] not_walk.simps [simp del]

section \<open>DNF converter\<close>

record dnf =
  depth :: nat
  applied :: bool

definition dnf_Enter :: "'f node \<Rightarrow> dnf \<Rightarrow> dnf" where
  "dnf_Enter node f =
     (if dnf.depth f > 0 then f\<lparr>dnf.depth := dnf.depth f + 1\<rparr>
      else (case node of
              BinaryNode op l r \<Rightarrow>
                if op \<noteq> ''and'' \<and> op \<noteq> ''&&'' \<and> op \<noteq> ''or'' \<and> op \<noteq> ''||''
                then f\<lparr>dnf.depth := dnf.depth f + 1\<rparr> else f
            | _ \<Rightarrow> f\<lparr>dnf.depth := dnf.depth f + 1\<rparr>))"

definition dnf_Exit :: "'f node \<Rightarrow> dnf \<Rightarrow> 'f node \<times> dnf" where
  "dnf_Exit node f =
     (if dnf.depth f > 0 then (node, f\<lparr>dnf.depth := dnf.depth f - 1\<rparr>)
      else
        (case asBinaryAnd node of
           Some (aop, aleft, aright) \<Rightarrow>
             (case asBinaryOr aleft of
                Some (oop, oleft, oright) \<Rightarrow>
                  (BinaryNode oop (BinaryNode aop oleft aright) (BinaryNode aop oright aright),
                   f\<lparr>applied := True\<rparr>)
              | None \<Rightarrow>
                  (case asBinaryOr aright of
                     Some (oop, oleft, oright) \<Rightarrow>
                       (BinaryNode oop (BinaryNode aop aleft oleft)
                          (BinaryNode aop aleft oright),
                        f\<lparr>applied := True\<rparr>)
                   | None \<Rightarrow> (node, f)))
         | None \<Rightarrow> (node, f)))"

text \<open>One round of \<^verbatim>\<open>toDNF\<close>: a walk with a fresh \<^verbatim>\<open>dnf\<close> visitor.\<close>

definition dnf_round :: "'f node \<Rightarrow> 'f node \<times> dnf" where
  "dnf_round node = walk dnf_Enter dnf_Exit node \<lparr>dnf.depth = 0, applied = False\<rparr>"

text \<open>
  The loop of \<^verbatim>\<open>toDNF\<close>, from the value \<open>limit\<close> of the counter.  Next to the tree the
  model returns the number of rounds that were run, which the Go code does not keep.
\<close>

function toDNF_loop :: "int \<Rightarrow> 'f node \<Rightarrow> 'f node \<times> nat" where
  "toDNF_loop limit node =
     (if limit \<ge> 0 then
        (case dnf_round node of
           (node', f) \<Rightarrow>
             if \<not> applied f then (node', 1)
             else (case toDNF_loop (limit - 1) node' of (node'', k) \<Rightarrow> (node'', k + 1)))
      else (node, 0))"
  by pat_completeness auto
termination
  by (relation "measure (\<lambda>(limit, node). nat (limit + 1))") auto

declare toDNF_loop.simps [simp del]

definition toDNF :: "'f node \<Rightarrow> 'f node" where
  "toDNF node = fst (toDNF_loop 1000 node)"

definition toDNF_rounds :: "'f node \<Rightarrow> nat" where
  "toDNF_rounds node = snd (toDNF_loop 1000 node)"

text \<open>
  The reading of the specification for one exit of the DNF visitor: the rewrite applies to
  a conjunction with a disjunction as a child.
\<close>

definition is_disjunction :: "'f node \<Rightarrow> bool" where
  "is_disjunction n = (case n of BinaryNode op l r \<Rightarrow> op = ''or'' \<or> op = ''||'' | _ \<Rightarrow> False)"

definition conjunction_over_disjunction :: "'f node \<Rightarrow> bool" where
  "conjunction_over_disjunction n =
     (case n of
        BinaryNode op l r \<Rightarrow> (op = ''and'' \<or> op = ''&&'') \<and> (is_disjunction l \<or> is_disjunction r)
      | _ \<Rightarrow> False)"

text \<open>
  The test of \<^verbatim>\<open>dnf.Enter\<close> at depth zero: a binary node with one of the operators
  \<^verbatim>\<open>and\<close>, \<^verbatim>\<open>&&\<close>, \<^verbatim>\<open>or\<close>, \<^verbatim>\<open>||\<close> belongs to the outermost chain of connectives.
\<close>

definition is_connective :: "'f node \<Rightarrow> bool" where
  "is_connective n =
     (case n of
        BinaryNode op l r \<Rightarrow> op = ''and'' \<or> op = ''&&'' \<or> op = ''or'' \<or> op = ''||''
      | _ \<Rightarrow> False)"

text \<open>The tree after one round, and whether the round applied a rewrite.\<close>

definition round_tree :: "'f node \<Rightarrow> 'f node" where
  "round_tree node = fst (dnf_round node)"

definition round_applied :: "'f node \<Rightarrow> bool" where
  "round_applied node = applied (snd (dnf_round node))"

definition loop_spec :: "nat \<Rightarrow> 'f node \<Rightarrow> 'f node \<times> nat \<Rightarrow> bool" where
  "loop_spec cap node res =
     (case res of (t, k) \<Rightarrow>
        1 \<le> k \<and> k \<le> cap \<and> t = (round_tree ^^ k) node
        \<and> (\<forall>j < k - 1. round_applied ((round_tree ^^ j) node))
        \<and> (k < cap \<longrightarrow> \<not> round_applied ((round_tree ^^ (k - 1)) node)))"

text \<open>
  A family of filters: \<^verbatim>\<open>(a or a or ... or a) and d\<close> with \<open>n\<close> disjunctions.  A round
  moves the conjunction one step down the chain, so the filter needs \<open>n\<close> rewriting
  rounds.
\<close>

fun or_chain :: "nat \<Rightarrow> 'f node" where
  "or_chain 0 = IdentifierNode ''a''"
| "or_chain (Suc n) = BinaryNode ''or'' (or_chain n) (IdentifierNode ''a'')"

definition and_over_chain :: "nat \<Rightarrow> 'f node" where
  "and_over_chain n = BinaryNode ''and'' (or_chain n) (IdentifierNode ''d'')"

fun or_spine :: "nat \<Rightarrow> 'f node \<Rightarrow> 'f node" where
  "or_spine 0 x = x"
| "or_spine (Suc k) x = BinaryNode ''or'' (or_spine k x) (and_over_chain 0)"

section \<open>Code generator\<close>

subsection \<open>Library functions\<close>

text \<open>
  The Go library functions that the generator and the assembler call on floats and on
  strings outside printable ASCII are parameters of the model: \<open>Sprint_float\<close> is
  \<^verbatim>\<open>fmt.Sprint\<close> on a \<^verbatim>\<open>float64\<close>, \<open>Quote_escapes\<close> is the text that \<^verbatim>\<open>strconv.Quote\<close> puts
  between the quotes for a string with a byte outside printable ASCII, and the last four
  are float multiplication, division and the constants \<^verbatim>\<open>180\<close> and \<^verbatim>\<open>math.Pi\<close>.

  Three parameters read a \<^verbatim>\<open>float64\<close> for \<^verbatim>\<open>strconv.FormatFloat(x, 'f', 5, 64)\<close>:
  \<open>float_class\<close> tells a NaN and the two infinities from the finite numbers,
  \<open>float_signbit\<close> is the sign bit, and \<open>float_round5\<close> is, for a finite number, its
  magnitude in units of \<open>10\<^sup>-\<^sup>5\<close> rounded to the nearest whole number, which is the
  rounding that the format with five decimals does.
\<close>

datatype float_class = IsNaN | IsPosInf | IsNegInf | IsFinite

record 'f go_library =
  Sprint_float :: "'f \<Rightarrow> string"
  float_class :: "'f \<Rightarrow> float_class"
  float_signbit :: "'f \<Rightarrow> bool"
  float_round5 :: "'f \<Rightarrow> nat"
  Quote_escapes :: "string \<Rightarrow> string"
  float_mul :: "'f \<Rightarrow> 'f \<Rightarrow> 'f"
  float_div :: "'f \<Rightarrow> 'f \<Rightarrow> 'f"
  float_180 :: 'f
  math_Pi :: 'f

definition is_letter :: "char \<Rightarrow> bool" where
  "is_letter c =
     (let n = (of_char c :: nat) in (97 \<le> n \<and> n \<le> 122) \<or> (65 \<le> n \<and> n \<le> 90))"

definition is_printable_ascii :: "char \<Rightarrow> bool" where
  "is_printable_ascii c = (let n = (of_char c :: nat) in 32 \<le> n \<and> n \<le> 126)"

text \<open>
  \<^verbatim>\<open>strconv.Quote\<close>: a double quote, the escaped text, a double quote.  A printable ASCII
  byte stands for itself, except that the double quote and the backslash get a backslash
  in front.
\<close>

definition quote_byte :: "char \<Rightarrow> string" where
  "quote_byte c = (if c = CHR 0x22 \<or> c = CHR 0x5C then [CHR 0x5C, c] else [c])"

definition strconv_Quote :: "'f go_library \<Rightarrow> string \<Rightarrow> string" where
  "strconv_Quote lib s =
     [CHR 0x22]
     @ (if list_all is_printable_ascii s then concat (map quote_byte s) else Quote_escapes lib s)
     @ [CHR 0x22]"

text \<open>\<^verbatim>\<open>regexp.QuoteMeta\<close>: a backslash in front of every byte of \<^verbatim>\<open>\.+*?()|[]{}^$\<close>.\<close>

definition regexp_QuoteMeta :: "string \<Rightarrow> string" where
  "regexp_QuoteMeta s =
     concat (map (\<lambda>c. if c \<in> set (CHR 0x5C # ''.+*?()|[]{}^$'') then [CHR 0x5C, c] else [c]) s)"

text \<open>\<^verbatim>\<open>fmt.Sprint\<close> on an \<^verbatim>\<open>int\<close>: the decimal digits, with a minus sign if negative.\<close>

fun nat_digits :: "nat \<Rightarrow> string" where
  "nat_digits n =
     (if n < 10 then [''0123456789'' ! n]
      else nat_digits (n div 10) @ [''0123456789'' ! (n mod 10)])"

declare nat_digits.simps [simp del]

definition Sprint_int :: "int \<Rightarrow> string" where
  "Sprint_int i = (if i < 0 then CHR ''-'' # nat_digits (nat (- i)) else nat_digits (nat i))"

text \<open>
  \<^verbatim>\<open>nodeName\<close>: the name of the Go type of the node without its suffix \<^verbatim>\<open>Node\<close>, in lower
  case.
\<close>

definition nodeName :: "'f node \<Rightarrow> string" where
  "nodeName n =
     (case n of
        NilNode \<Rightarrow> ''nil''
      | IdentifierNode v \<Rightarrow> ''identifier''
      | IntegerNode v \<Rightarrow> ''integer''
      | FloatNode v \<Rightarrow> ''float''
      | BoolNode v \<Rightarrow> ''bool''
      | StringNode v \<Rightarrow> ''string''
      | UnaryNode op x \<Rightarrow> ''unary''
      | BinaryNode op l r \<Rightarrow> ''binary''
      | MatchesNode l r \<Rightarrow> ''matches''
      | FunctionNode name args \<Rightarrow> ''function''
      | ConditionalNode c e1 e2 \<Rightarrow> ''conditional''
      | ArrayNode ns \<Rightarrow> ''array'')"

subsection \<open>The visitor\<close>

text \<open>
  The fields of \<^verbatim>\<open>queryBuilder\<close>.  Both stacks are Go slices that grow at the end; \<open>err\<close>
  holds the message of the error.  An index out of range stops the Go program with a
  run-time panic: a function that can panic returns \<open>None\<close> there.
\<close>

record queryBuilder =
  stack :: "string list"
  not :: "bool list"
  depth :: nat
  err :: "string option"

definition isWrapped :: "string \<Rightarrow> bool option" where
  "isWrapped str =
     (case str of [] \<Rightarrow> None | c # cs \<Rightarrow> Some (c = CHR ''['' \<or> take 4 str = ''(if:''))"

definition bangIf :: "string \<Rightarrow> bool \<Rightarrow> string" where
  "bangIf str neg = (if neg then ''!'' @ str else str)"

definition push :: "string list \<Rightarrow> queryBuilder \<Rightarrow> queryBuilder" where
  "push a q = q\<lparr>stack := stack q @ [concat a]\<rparr>"

definition pop :: "queryBuilder \<Rightarrow> (string \<times> queryBuilder) option" where
  "pop q =
     (if stack q = [] then None
      else Some (last (stack q), q\<lparr>stack := butlast (stack q)\<rparr>))"

definition qb_Enter :: "'f node \<Rightarrow> queryBuilder \<Rightarrow> queryBuilder" where
  "qb_Enter node q =
     (if depth q > 0 then q\<lparr>depth := depth q + 1\<rparr>
      else
        (let neg = (asUnaryNot node \<noteq> None)
         in if \<not> neg \<and> asBinaryAnd node = None \<and> asBinaryOr node = None
            then q\<lparr>depth := depth q + 1\<rparr>
            else q\<lparr>not := queryBuilder.not q @ [neg]\<rparr>))"

text \<open>
  The identifier: quoted when a character is not a letter.  The Go code tests the runes
  of the name; a byte outside ASCII belongs to a rune that is not a letter and an ASCII
  byte is a rune of its own, so the test on the bytes is the same.
\<close>

definition exit_Identifier :: "'f go_library \<Rightarrow> string \<Rightarrow> bool \<Rightarrow> bool \<Rightarrow> queryBuilder \<Rightarrow>
    queryBuilder" where
  \<open>exit_Identifier lib v root neg q =
     (let name = (if list_ex (\<lambda>c. \<not> is_letter c) v then strconv_Quote lib v else v)
      in if \<not> root then push [bangIf name neg] q
         else if neg then push [''['', name, ''="no"]''] q
         else push [''['', name, ''="yes"]''] q)\<close>

definition exit_Unary :: "string \<Rightarrow> bool \<Rightarrow> bool \<Rightarrow> queryBuilder \<Rightarrow> queryBuilder option" where
  "exit_Unary op root neg q =
     (if \<not> root \<or> (op \<noteq> ''not'' \<and> op \<noteq> ''!'') then
        do { (x, q1) \<leftarrow> pop q; Some (push [bangIf op neg, ''('', x, '')''] q1) }
      else Some q)"

text \<open>
  The test \<^verbatim>\<open>!root || (!isWrapped(lhs) && !isWrapped(rhs))\<close>, evaluated from left to right
  as Go does: \<^verbatim>\<open>isWrapped(rhs)\<close> is only called when \<^verbatim>\<open>lhs\<close> is not wrapped.
\<close>

definition inline_connective :: "bool \<Rightarrow> string \<Rightarrow> string \<Rightarrow> bool option" where
  "inline_connective root lhs rhs =
     (if \<not> root then Some True
      else do {
        wl \<leftarrow> isWrapped lhs;
        if wl then Some False
        else do { wr \<leftarrow> isWrapped rhs; Some (\<not> wr) }
      })"

definition exit_And :: "bool \<Rightarrow> string \<Rightarrow> string \<Rightarrow> queryBuilder \<Rightarrow> queryBuilder option" where
  "exit_And root lhs rhs q =
     do {
       inline \<leftarrow> inline_connective root lhs rhs;
       if inline then Some (push [lhs, ''&&'', rhs] q)
       else do {
         wl \<leftarrow> isWrapped lhs;
         wr \<leftarrow> isWrapped rhs;
         Some (push [if \<not> wl then ''(if:'' @ lhs @ '')'' else lhs,
                     if \<not> wr then ''(if:'' @ rhs @ '')'' else rhs] q)
       }
     }"

definition exit_Or :: "bool \<Rightarrow> string \<Rightarrow> string \<Rightarrow> queryBuilder \<Rightarrow> queryBuilder option" where
  "exit_Or root lhs rhs q =
     do {
       inline \<leftarrow> inline_connective root lhs rhs;
       if inline then Some (push [lhs, ''||'', rhs] q)
       else Some (push [rhs] (push [lhs] q))
     }"

definition exit_Compare :: "'f go_library \<Rightarrow> string \<Rightarrow> 'f node \<Rightarrow> string \<Rightarrow> string \<Rightarrow>
    queryBuilder \<Rightarrow> queryBuilder option" where
  "exit_Compare lib op left lhs rhs q =
     (case left of
        IdentifierNode v \<Rightarrow>
          (case lhs of
             [] \<Rightarrow> None
           | c # cs \<Rightarrow>
               (let lhs1 = (if c \<noteq> CHR 0x22 then strconv_Quote lib lhs else lhs)
                in Some (push [''t['' @ lhs1 @ '']'', op, rhs] q)))
      | _ \<Rightarrow> Some (push [lhs, op, rhs] q))"

definition is_StringNode :: "'f node \<Rightarrow> bool" where
  "is_StringNode n = (case n of StringNode v \<Rightarrow> True | _ \<Rightarrow> False)"

definition is_FunctionNode :: "'f node \<Rightarrow> bool" where
  "is_FunctionNode n = (case n of FunctionNode name args \<Rightarrow> True | _ \<Rightarrow> False)"

definition is_IdentifierNode :: "'f node \<Rightarrow> bool" where
  "is_IdentifierNode n = (case n of IdentifierNode v \<Rightarrow> True | _ \<Rightarrow> False)"

text \<open>
  The string predicates become the regex operator; a literal right operand is escaped
  and anchored.  \<^verbatim>\<open>rhs[:1]\<close> and \<^verbatim>\<open>rhs[:len(rhs)-1]\<close> panic on the empty string.
\<close>

definition regex_operand :: "string \<Rightarrow> 'f node \<Rightarrow> string \<Rightarrow> (string \<times> string) option" where
  "regex_operand op right rhs =
     (if op = ''contains'' then
        Some (''~'', if is_StringNode right then regexp_QuoteMeta rhs else rhs)
      else if op = ''startsWith'' then
        (if is_StringNode right then
           (case rhs of [] \<Rightarrow> None
            | c # cs \<Rightarrow> Some (''~'', [c] @ ''^'' @ regexp_QuoteMeta cs))
         else Some (''~'', rhs))
      else if op = ''endsWith'' then
        (if is_StringNode right then
           (if rhs = [] then None
            else Some (''~'', regexp_QuoteMeta (butlast rhs) @ ''$'' @ [last rhs]))
         else Some (''~'', rhs))
      else Some (op, rhs))"

definition exit_Other :: "string \<Rightarrow> 'f node \<Rightarrow> 'f node \<Rightarrow> bool \<Rightarrow> bool \<Rightarrow> string \<Rightarrow> string \<Rightarrow>
    queryBuilder \<Rightarrow> queryBuilder option" where
  \<open>exit_Other nop left right root0 neg lhs rhs0 q =
     do {
       (op, rhs) \<leftarrow> regex_operand nop right rhs0;
       let root = (if is_FunctionNode left \<or> is_FunctionNode right then False else root0);
       if root then
         (if op = ''=='' \<or> op = ''!='' then
            (let (lhs1, rhs1) = (if is_IdentifierNode right then (rhs, lhs) else (lhs, rhs));
                 neg1 = (if op = ''!='' then \<not> neg else neg);
                 (op2, rhs2) = (if rhs1 = ''""'' then (''~'', ''"^$"'') else (''='', rhs1))
             in Some (push [''['', lhs1, bangIf op2 neg1, rhs2, '']''] q))
          else Some (push [''['', lhs, bangIf op neg, rhs, '']''] q))
       else Some (push [lhs, bangIf op neg, rhs] q)
     }\<close>

definition exit_Binary :: "'f go_library \<Rightarrow> string \<Rightarrow> 'f node \<Rightarrow> 'f node \<Rightarrow> bool \<Rightarrow> bool \<Rightarrow>
    queryBuilder \<Rightarrow> queryBuilder option" where
  "exit_Binary lib op left right root neg q =
     do {
       (rhs, q1) \<leftarrow> pop q;
       (lhs, q2) \<leftarrow> pop q1;
       if op = ''and'' \<or> op = ''&&'' then exit_And root lhs rhs q2
       else if op = ''or'' \<or> op = ''||'' then exit_Or root lhs rhs q2
       else if op = ''>'' \<or> op = ''>='' \<or> op = ''<'' \<or> op = ''<=''
         then exit_Compare lib op left lhs rhs q2
       else exit_Other op left right root neg lhs rhs q2
     }"

definition exit_Matches :: "bool \<Rightarrow> bool \<Rightarrow> queryBuilder \<Rightarrow> queryBuilder option" where
  "exit_Matches root neg q =
     do {
       (rhs, q1) \<leftarrow> pop q;
       (lhs, q2) \<leftarrow> pop q1;
       if root then Some (push [''['', lhs, bangIf ''~'' neg, rhs, '']''] q2)
       else Some (push [lhs, bangIf ''~'' neg, rhs] q2)
     }"

text \<open>
  The loop \<^verbatim>\<open>for range n.Arguments { parts = append(parts, q.pop()) }\<close>: one pop per
  argument, each appended to \<open>parts\<close>.
\<close>

fun pop_arguments :: "'f node list \<Rightarrow> string list \<Rightarrow> queryBuilder \<Rightarrow>
    (string list \<times> queryBuilder) option" where
  "pop_arguments [] parts q = Some (parts, q)"
| "pop_arguments (a # as) parts q =
     do { (x, q1) \<leftarrow> pop q; pop_arguments as (parts @ [x]) q1 }"

definition exit_Function :: "string \<Rightarrow> 'f node list \<Rightarrow> bool \<Rightarrow> bool \<Rightarrow> queryBuilder \<Rightarrow>
    queryBuilder option" where
  "exit_Function name args root neg q =
     (if root \<and> name = ''is_tag'' \<and> length args = 1 then
        do { (x, q1) \<leftarrow> pop q; Some (push [''['', bangIf x neg, '']''] q1) }
      else
        do {
          (parts, q1) \<leftarrow> pop_arguments args [bangIf name neg, ''(''] q;
          Some (push (parts @ ['')'']) q1)
        })"

definition exit_Conditional :: "queryBuilder \<Rightarrow> queryBuilder option" where
  "exit_Conditional q =
     do {
       (e2, q1) \<leftarrow> pop q;
       (e1, q2) \<leftarrow> pop q1;
       (c, q3) \<leftarrow> pop q2;
       Some (push [c, ''?'', e1, '':'', e2] q3)
     }"

definition exit_node :: "'f go_library \<Rightarrow> 'f node \<Rightarrow> bool \<Rightarrow> bool \<Rightarrow> queryBuilder \<Rightarrow>
    queryBuilder option" where
  \<open>exit_node lib node root neg q =
     (case node of
        IdentifierNode v \<Rightarrow> Some (exit_Identifier lib v root neg q)
      | IntegerNode v \<Rightarrow> Some (push [Sprint_int v] q)
      | FloatNode v \<Rightarrow> Some (push [Sprint_float lib v] q)
      | BoolNode v \<Rightarrow> Some (push [if v \<noteq> neg then ''"yes"'' else ''"no"''] q)
      | StringNode v \<Rightarrow> Some (push [strconv_Quote lib v] q)
      | UnaryNode op x \<Rightarrow> exit_Unary op root neg q
      | BinaryNode op left right \<Rightarrow> exit_Binary lib op left right root neg q
      | MatchesNode left right \<Rightarrow> exit_Matches root neg q
      | FunctionNode name args \<Rightarrow> exit_Function name args root neg q
      | ConditionalNode c e1 e2 \<Rightarrow> exit_Conditional q
      | _ \<Rightarrow> Some (q\<lparr>err := Some (nodeName node @ '' not supported'')\<rparr>))\<close>

definition inverted_literal :: "'f node \<Rightarrow> bool" where
  "inverted_literal n =
     (case n of IntegerNode v \<Rightarrow> True | FloatNode v \<Rightarrow> True | StringNode v \<Rightarrow> True
      | _ \<Rightarrow> False)"

definition qb_Exit :: "'f go_library \<Rightarrow> 'f node \<Rightarrow> queryBuilder \<Rightarrow> queryBuilder option" where
  "qb_Exit lib node q =
     (if err q \<noteq> None then Some q
      else
        (let q1 = (if depth q > 0 then q\<lparr>depth := depth q - 1\<rparr> else q);
             root = (depth q1 = 0);
             pending = (root \<and> length (queryBuilder.not q1) > 0);
             neg = (if pending then last (queryBuilder.not q1) else False);
             q2 = (if pending then q1\<lparr>not := butlast (queryBuilder.not q1)\<rparr> else q1)
         in if neg \<and> inverted_literal node
            then Some (q2\<lparr>err := Some (''inverted '' @ nodeName node @ '' not supported'')\<rparr>)
            else exit_node lib node root neg q2))"

text \<open>
  The walk of the generator.  The visitor of the walk is the \<^verbatim>\<open>queryBuilder\<close>, or \<open>None\<close>
  after a panic, when no further call is made.  The generator does not patch the tree.
\<close>

definition qb_enter :: "'f node \<Rightarrow> queryBuilder option \<Rightarrow> queryBuilder option" where
  "qb_enter node s = map_option (qb_Enter node) s"

definition qb_exit :: "'f go_library \<Rightarrow> 'f node \<Rightarrow> queryBuilder option \<Rightarrow>
    'f node \<times> queryBuilder option" where
  "qb_exit lib node s = (node, Option.bind s (qb_Exit lib node))"

definition qb_walk :: "'f go_library \<Rightarrow> 'f node \<Rightarrow> queryBuilder \<Rightarrow> queryBuilder option" where
  "qb_walk lib node q = snd (walk qb_enter (qb_exit lib) node (Some q))"

subsection \<open>buildCriteria and buildQuery\<close>

datatype error = GoError string | RuntimePanic

text \<open>The last loop of \<^verbatim>\<open>buildCriteria\<close>: every criterion that is not wrapped is wrapped.\<close>

fun wrap_criteria :: "string list \<Rightarrow> string list option" where
  "wrap_criteria [] = Some []"
| "wrap_criteria (crit # crits) =
     do {
       w \<leftarrow> isWrapped crit;
       rest \<leftarrow> wrap_criteria crits;
       Some ((if \<not> w then ''(if:'' @ crit @ '')'' else crit) # rest)
     }"

text \<open>
  The four rewriting walks of \<^verbatim>\<open>buildCriteria\<close>, in the order of the source, and the
  zero value \<^verbatim>\<open>queryBuilder{}\<close> with which the generator starts.
\<close>

definition rewrite_passes :: "'f node \<Rightarrow> 'f node" where
  "rewrite_passes tree = toDNF (not_walk (expandInRange (expandInArray tree)))"

definition new_queryBuilder :: queryBuilder where
  "new_queryBuilder = \<lparr>stack = [], not = [], depth = 0, err = None\<rparr>"

text \<open>\<^verbatim>\<open>buildCriteria\<close> after the parser has returned the tree.\<close>

definition criteria_of_tree :: "'f go_library \<Rightarrow> 'f node \<Rightarrow> error + string list" where
  "criteria_of_tree lib tree =
     (case qb_walk lib (rewrite_passes tree) new_queryBuilder of
        None \<Rightarrow> Inl RuntimePanic
      | Some qb \<Rightarrow>
          (case err qb of
             Some e \<Rightarrow> Inl (GoError e)
           | None \<Rightarrow>
               (case wrap_criteria (stack qb) of
                  None \<Rightarrow> Inl RuntimePanic
                | Some crits \<Rightarrow> Inr crits)))"

text \<open>
  The parser is the one of the expression library: \<open>parse\<close> returns the tree or the
  message of the parse error.
\<close>

definition buildCriteria :: "'f go_library \<Rightarrow> (string \<Rightarrow> string + 'f node) \<Rightarrow> string \<Rightarrow>
    error + string list" where
  "buildCriteria lib parse filter_s =
     (case parse filter_s of
        Inl e \<Rightarrow> Inl (GoError e)
      | Inr tree \<Rightarrow> criteria_of_tree lib tree)"

record 'f Point =
  Lat :: 'f
  Lon :: 'f

record 'f Circle =
  Origin :: "'f Point"
  Radius :: 'f

definition RadiansToDegrees :: "'f go_library \<Rightarrow> 'f \<Rightarrow> 'f" where
  "RadiansToDegrees lib r = float_div lib (float_mul lib r (float_180 lib)) (math_Pi lib)"

text \<open>\<^verbatim>\<open>strings.TrimRight(s, cutset)\<close>: drop the bytes of the cut set from the end.\<close>

definition TrimRight :: "string \<Rightarrow> string \<Rightarrow> string" where
  "TrimRight s cutset = rev (dropWhile (\<lambda>c. c \<in> set cutset) (rev s))"

text \<open>
  \<^verbatim>\<open>strconv.FormatFloat(x, 'f', 5, 64)\<close>: \<^verbatim>\<open>NaN\<close>, \<^verbatim>\<open>+Inf\<close> or \<^verbatim>\<open>-Inf\<close> for a value that is
  not finite; for a finite one a minus sign if the sign bit is set, the digits of the
  integer part (at least one), a point and exactly five decimals.
\<close>

definition fraction5 :: "nat \<Rightarrow> string" where
  "fraction5 n = map (\<lambda>k. ''0123456789'' ! (n div 10 ^ k mod 10)) [4, 3, 2, 1, 0]"

definition strconv_FormatFloat_f5 :: "'f go_library \<Rightarrow> 'f \<Rightarrow> string" where
  "strconv_FormatFloat_f5 lib x =
     (case float_class lib x of
        IsNaN \<Rightarrow> ''NaN''
      | IsPosInf \<Rightarrow> ''+Inf''
      | IsNegInf \<Rightarrow> ''-Inf''
      | IsFinite \<Rightarrow>
          (if float_signbit lib x then ''-'' else [])
          @ nat_digits (float_round5 lib x div 100000) @ ''.''
          @ fraction5 (float_round5 lib x))"

definition FormatFloat :: "'f go_library \<Rightarrow> 'f \<Rightarrow> string" where
  "FormatFloat lib val = TrimRight (TrimRight (strconv_FormatFloat_f5 lib val) ''0'') ''.''"

text \<open>The loop of \<^verbatim>\<open>buildQuery\<close> appends three parts per criterion.\<close>

fun append_criteria :: "string \<Rightarrow> string list \<Rightarrow> string list \<Rightarrow> string list" where
  "append_criteria prefix [] parts = parts"
| "append_criteria prefix (crit # crits) parts =
     append_criteria prefix crits (parts @ [prefix, crit, '';''])"

definition buildQuery :: "'f go_library \<Rightarrow> (string \<Rightarrow> string + 'f node) \<Rightarrow> 'f Circle \<Rightarrow> string \<Rightarrow>
    error + string" where
  "buildQuery lib parse region filter_s =
     (case buildCriteria lib parse filter_s of
        Inl (GoError e) \<Rightarrow> Inl (GoError (''overpass query error: '' @ e))
      | Inl RuntimePanic \<Rightarrow> Inl RuntimePanic
      | Inr crits \<Rightarrow>
          (let prefix = ''way(around:'' @ FormatFloat lib (Radius region) @ '',''
                 @ FormatFloat lib (RadiansToDegrees lib (Lat (Origin region))) @ '',''
                 @ FormatFloat lib (RadiansToDegrees lib (Lon (Origin region))) @ '')'';
               parts = append_criteria prefix crits [''[out:json];('']
           in Inr (concat (parts @ ['');out tags geom qt;'']))))"

section \<open>Definitions for the statements\<close>

text \<open>
  The proximity clause that \<^verbatim>\<open>buildQuery\<close> puts in front of every criterion.
\<close>

definition around :: "'f go_library \<Rightarrow> 'f Circle \<Rightarrow> string" where
  "around lib region =
     ''way(around:'' @ FormatFloat lib (Radius region) @ '',''
     @ FormatFloat lib (RadiansToDegrees lib (Lat (Origin region))) @ '',''
     @ FormatFloat lib (RadiansToDegrees lib (Lon (Origin region))) @ '')''"

text \<open>
  An instance of the library parameters, for running the model on concrete inputs: a
  number is held as a whole number of units of \<open>10\<^sup>-\<^sup>5\<close>, so that the format with five
  decimals is exact.
\<close>

definition fixed5 :: "int \<Rightarrow> string" where
  "fixed5 i =
     (if i < 0 then ''-'' else [])
     @ nat_digits (nat \<bar>i\<bar> div 100000) @ ''.''
     @ map (\<lambda>k. ''0123456789'' ! (nat \<bar>i\<bar> div 10 ^ k mod 10)) [4, 3, 2, 1, 0]"

definition example_library :: "int go_library" where
  "example_library =
     \<lparr>Sprint_float = fixed5, float_class = (\<lambda>i. IsFinite), float_signbit = (\<lambda>i. i < 0),
      float_round5 = (\<lambda>i. nat \<bar>i\<bar>), Quote_escapes = id,
      float_mul = (\<lambda>a b. a * b div 100000), float_div = (\<lambda>a b. a * 100000 div b),
      float_180 = 18000000, math_Pi = 314159\<rparr>"

text \<open>
  The same instance with a NaN next to the numbers: \<open>None\<close> is the NaN, which
  multiplication and division hand on and \<^verbatim>\<open>fmt.Sprint\<close> writes as \<^verbatim>\<open>NaN\<close>.
\<close>

definition example_library_nan :: "int option go_library" where
  "example_library_nan =
     \<lparr>Sprint_float = (\<lambda>x. case x of None \<Rightarrow> ''NaN'' | Some i \<Rightarrow> fixed5 i),
      float_class = (\<lambda>x. case x of None \<Rightarrow> IsNaN | Some i \<Rightarrow> IsFinite),
      float_signbit = (\<lambda>x. case x of None \<Rightarrow> False | Some i \<Rightarrow> i < 0),
      float_round5 = (\<lambda>x. case x of None \<Rightarrow> 0 | Some i \<Rightarrow> nat \<bar>i\<bar>),
      Quote_escapes = id,
      float_mul = (\<lambda>a b. case (a, b) of (Some i, Some j) \<Rightarrow> Some (i * j div 100000) | _ \<Rightarrow> None),
      float_div = (\<lambda>a b. case (a, b) of (Some i, Some j) \<Rightarrow> Some (i * 100000 div j) | _ \<Rightarrow> None),
      float_180 = Some 18000000, math_Pi = Some 314159\<rparr>"

text \<open>
  The reading of the specification for the numbers of the query: a plain decimal number
  with no trailing zero is an optional minus sign, one or more digits and, optionally, a
  point followed by one or more digits of which the last is not a zero.
\<close>

definition is_digit :: "char \<Rightarrow> bool" where
  "is_digit c = (c \<in> set ''0123456789'')"

definition plain_decimal :: "string \<Rightarrow> bool" where
  "plain_decimal s =
     (let t = (case s of [] \<Rightarrow> [] | c # r \<Rightarrow> if c = CHR ''-'' then r else s);
          ip = takeWhile is_digit t;
          rest = dropWhile is_digit t
      in ip \<noteq> []
         \<and> (rest = []
            \<or> (hd rest = CHR ''.'' \<and> tl rest \<noteq> [] \<and> list_all is_digit (tl rest)
                \<and> last rest \<noteq> CHR ''0'')))"

text \<open>
  The filter of the first scenario of the specification and the tree that the parser of
  the expression library returns for it.
\<close>

definition highway_filter :: string where
  "highway_filter = ''highway in ['primary','secondary']''"

definition highway_tree :: "'f node" where
  "highway_tree = BinaryNode ''in'' (IdentifierNode ''highway'')
     (ArrayNode [StringNode ''primary'', StringNode ''secondary''])"

definition parse_highway :: "string \<Rightarrow> string + 'f node" where
  "parse_highway s = (if s = highway_filter then Inr highway_tree else Inl ''unexpected token'')"

text \<open>
  The fragments on the stack are never empty (\<open>stack_ok\<close>); a walk of a subtree that ends
  without an error has added at least one fragment (\<open>progress\<close>).  The names of the
  identifiers of a tree are not empty, as the parser builds them (\<open>wf_identifiers\<close>).
\<close>

definition stack_ok :: "queryBuilder \<Rightarrow> bool" where
  "stack_ok q = list_all (\<lambda>x. x \<noteq> []) (stack q)"

definition good :: "nat \<Rightarrow> queryBuilder \<Rightarrow> bool" where
  "good b q = (stack_ok q \<and> b \<le> length (stack q))"

definition progress :: "nat \<Rightarrow> queryBuilder option \<Rightarrow> bool" where
  "progress b s =
     (case s of None \<Rightarrow> False | Some q \<Rightarrow> stack_ok q \<and> (err q = None \<longrightarrow> b \<le> length (stack q)))"

fun wf_identifiers :: "'f node \<Rightarrow> bool" where
  "wf_identifiers (IdentifierNode v) = (v \<noteq> [])"
| "wf_identifiers (UnaryNode op x) = wf_identifiers x"
| "wf_identifiers (BinaryNode op l r) = (wf_identifiers l \<and> wf_identifiers r)"
| "wf_identifiers (MatchesNode l r) = (wf_identifiers l \<and> wf_identifiers r)"
| "wf_identifiers (FunctionNode name args) = list_all wf_identifiers args"
| "wf_identifiers (ConditionalNode c e1 e2) =
     (wf_identifiers c \<and> wf_identifiers e1 \<and> wf_identifiers e2)"
| "wf_identifiers (ArrayNode ns) = list_all wf_identifiers ns"
| "wf_identifiers _ = True"

fun arity :: "'f node \<Rightarrow> nat" where
  "arity (UnaryNode op x) = 1"
| "arity (BinaryNode op l r) = 2"
| "arity (MatchesNode l r) = 2"
| "arity (FunctionNode name args) = length args"
| "arity (ConditionalNode c e1 e2) = 3"
| "arity (ArrayNode ns) = length ns"
| "arity _ = 0"

definition sprint_ok :: "'f go_library \<Rightarrow> bool" where
  "sprint_ok lib = (\<forall>x. Sprint_float lib x \<noteq> [])"

definition wf_top :: "'f node \<Rightarrow> bool" where
  "wf_top n = (case n of IdentifierNode v \<Rightarrow> v \<noteq> [] | _ \<Rightarrow> True)"

text \<open>The visitor after the walk of a node, and of a list of nodes.\<close>

definition run :: "'f go_library \<Rightarrow> 'f node \<Rightarrow> queryBuilder option \<Rightarrow> queryBuilder option" where
  "run lib n s = snd (walk qb_enter (qb_exit lib) n s)"

definition run_nodes :: "'f go_library \<Rightarrow> 'f node list \<Rightarrow> queryBuilder option \<Rightarrow>
    queryBuilder option" where
  "run_nodes lib ns s = snd (walk_nodes qb_enter (qb_exit lib) ns s)"

text \<open>The visitor holds the error \<open>e\<close> and the stack \<open>S\<close>.\<close>

definition latched :: "string \<Rightarrow> string list \<Rightarrow> queryBuilder option \<Rightarrow> bool" where
  "latched e S s = (case s of None \<Rightarrow> False | Some q \<Rightarrow> err q = Some e \<and> stack q = S)"

section \<open>Properties of the membership expander\<close>

lemma array_loop_from_first:
  "i > 0 \<Longrightarrow> array_loop left ns i cur = foldl (BinaryNode ''or'') cur (equalities left ns)"
  by (induction ns arbitrary: i cur) (simp_all add: equalities_def)

lemma array_loop_left_disjunction:
  "ns \<noteq> [] \<Longrightarrow> array_loop left ns 0 cur = left_disjunction (equalities left ns)"
  by (cases ns) (simp_all add: array_loop_from_first left_disjunction_def equalities_def)

text \<open>
  Claim C3.  On a membership test (operator \<^verbatim>\<open>in\<close> or \<^verbatim>\<open>not in\<close>) against an array literal,
  \<^verbatim>\<open>expandInArray.Exit\<close> leaves in the slot: for the empty array the boolean literal
  \<^verbatim>\<open>false\<close>; for an array of N elements the left-associated disjunction of the N
  comparisons \<^verbatim>\<open>left == element\<close>, in array order; either one inside a unary \<^verbatim>\<open>not\<close> when
  the operator was \<^verbatim>\<open>not in\<close>.
\<close>

theorem expandInArray_Exit_array:
  "op = ''in'' \<or> op = ''not in'' \<Longrightarrow>
   expandInArray_Exit (BinaryNode op left (ArrayNode ns)) =
     negate_if (op = ''not in'')
       (if ns = [] then BoolNode False else left_disjunction (equalities left ns))"
  by (auto simp: expandInArray_Exit_def asBinaryIn_def negate_if_def array_loop_left_disjunction)

theorem expandInArray_Exit_array_witness:
  "expandInArray_Exit (BinaryNode ''not in'' (IdentifierNode ''a'')
       (ArrayNode [StringNode ''b'', StringNode ''c'', StringNode ''d''])) =
     (UnaryNode ''not''
       (BinaryNode ''or''
         (BinaryNode ''or'' (BinaryNode ''=='' (IdentifierNode ''a'') (StringNode ''b''))
                            (BinaryNode ''=='' (IdentifierNode ''a'') (StringNode ''c'')))
         (BinaryNode ''=='' (IdentifierNode ''a'') (StringNode ''d''))) :: unit node)
   \<and> expandInArray_Exit (BinaryNode ''in'' (IdentifierNode ''sport'') (ArrayNode [])) =
     (BoolNode False :: unit node)"
  using expandInArray_Exit_array [of "''not in''" "IdentifierNode ''a''"
      "[StringNode ''b'', StringNode ''c'', StringNode ''d'']"]
    expandInArray_Exit_array [of "''in''" "IdentifierNode ''sport''" "[]"]
  by (simp add: negate_if_def left_disjunction_def equalities_def)

text \<open>
  Claim C4.  On a membership test against a range \<^verbatim>\<open>lo..hi\<close>, \<^verbatim>\<open>expandInRange.Exit\<close> leaves
  in the slot the comparison \<^verbatim>\<open>left == lo\<close> when both bounds are literals of the same kind
  and value, and the conjunction \<^verbatim>\<open>left >= lo and left <= hi\<close> otherwise, in particular
  whenever a bound is not a literal; either one inside a unary \<^verbatim>\<open>not\<close> when the operator was
  \<^verbatim>\<open>not in\<close>.
\<close>

theorem expandInRange_Exit_range:
  "op = ''in'' \<or> op = ''not in'' \<Longrightarrow>
   expandInRange_Exit (BinaryNode op left (BinaryNode ''..'' lo hi)) =
     negate_if (op = ''not in'')
       (if is_literal lo \<and> lo = hi then BinaryNode ''=='' left lo
        else BinaryNode ''and'' (BinaryNode ''>='' left lo) (BinaryNode ''<='' left hi))"
  by (cases lo; cases hi)
     (auto simp: expandInRange_Exit_def asBinaryIn_def negate_if_def getValue_def is_literal_def)

theorem expandInRange_Exit_range_witness:
  "expandInRange_Exit (BinaryNode ''not in'' (IdentifierNode ''a'')
       (BinaryNode ''..'' (IntegerNode 2) (IntegerNode 6))) =
     (UnaryNode ''not''
       (BinaryNode ''and'' (BinaryNode ''>='' (IdentifierNode ''a'') (IntegerNode 2))
                           (BinaryNode ''<='' (IdentifierNode ''a'') (IntegerNode 6)))
      :: unit node)
   \<and> expandInRange_Exit (BinaryNode ''in'' (IdentifierNode ''a'')
       (BinaryNode ''..'' (IntegerNode 3) (IntegerNode 3))) =
     (BinaryNode ''=='' (IdentifierNode ''a'') (IntegerNode 3) :: unit node)
   \<and> expandInRange_Exit (BinaryNode ''in'' (IdentifierNode ''a'')
       (BinaryNode ''..'' (IdentifierNode ''b'') (IdentifierNode ''b''))) =
     (BinaryNode ''and'' (BinaryNode ''>='' (IdentifierNode ''a'') (IdentifierNode ''b''))
                         (BinaryNode ''<='' (IdentifierNode ''a'') (IdentifierNode ''b''))
      :: unit node)"
  using expandInRange_Exit_range [of "''not in''" "IdentifierNode ''a''" "IntegerNode 2"
      "IntegerNode 6"]
    expandInRange_Exit_range [of "''in''" "IdentifierNode ''a''" "IntegerNode 3"
      "IntegerNode 3"]
    expandInRange_Exit_range [of "''in''" "IdentifierNode ''a''" "IdentifierNode ''b''"
      "IdentifierNode ''b''"]
  by (simp add: negate_if_def is_literal_def)

section \<open>Properties of the negation normalizer\<close>

lemma operatorPairs_table:
  "operatorPairs ''and'' = Some ''or''" "operatorPairs ''or'' = Some ''and''"
  "operatorPairs ''&&'' = Some ''||''" "operatorPairs ''||'' = Some ''&&''"
  "operatorPairs ''=='' = Some ''!=''" "operatorPairs ''!='' = Some ''==''"
  "operatorPairs ''>='' = Some ''<''" "operatorPairs ''<'' = Some ''>=''"
  "operatorPairs ''>'' = Some ''<=''" "operatorPairs ''<='' = Some ''>''"
  "operatorPairs ''in'' = Some ''not in''" "operatorPairs ''not in'' = Some ''in''"
  by (simp_all add: operatorPairs_def operatorPairs_literal_def)

lemma operatorPairs_dual:
  "(bop, d) \<in> set operatorPairs_literal \<or> (d, bop) \<in> set operatorPairs_literal \<Longrightarrow>
   operatorPairs bop = Some d"
  by (auto simp: operatorPairs_literal_def operatorPairs_table)

text \<open>
  Claim C5.  On a unary \<^verbatim>\<open>not\<close> (or \<^verbatim>\<open>!\<close>) whose operand is a binary node with a registered
  dual (and/or, &&/||, ==/!=, >=/<, >/<=, in/not in, in either direction),
  \<^verbatim>\<open>distributeAndFoldNot.Enter\<close> puts the operand into the slot with its operator replaced
  by the dual; for a connective (and, &&, or, ||) both children are wrapped in their own
  negation first, for a comparison or membership operator the children stay as they are.
  The walk then goes on into the children of the new node.
\<close>

theorem not_Enter_dual:
  assumes "uop = ''not'' \<or> uop = ''!''"
    and "(bop, d) \<in> set [(''and'', ''or''), (''&&'', ''||''), (''=='', ''!=''),
            (''>='', ''<''), (''>'', ''<=''), (''in'', ''not in'')]
         \<or> (d, bop) \<in> set [(''and'', ''or''), (''&&'', ''||''), (''=='', ''!=''),
            (''>='', ''<''), (''>'', ''<=''), (''in'', ''not in'')]"
  shows "not_Enter (UnaryNode uop (BinaryNode bop A B)) =
           (if bop \<in> {''and'', ''&&'', ''or'', ''||''}
            then BinaryNode d (UnaryNode uop A) (UnaryNode uop B)
            else BinaryNode d A B)
         \<and> not_walk (UnaryNode uop (BinaryNode bop A B)) =
           (if bop \<in> {''and'', ''&&'', ''or'', ''||''}
            then BinaryNode d (not_walk (UnaryNode uop A)) (not_walk (UnaryNode uop B))
            else BinaryNode d (not_walk A) (not_walk B))"
proof -
  have d: "operatorPairs bop = Some d"
    using assms(2) operatorPairs_dual [of bop d] by (simp add: operatorPairs_literal_def)
  have e: "not_Enter (UnaryNode uop (BinaryNode bop A B)) =
           (if bop \<in> {''and'', ''&&'', ''or'', ''||''}
            then BinaryNode d (UnaryNode uop A) (UnaryNode uop B)
            else BinaryNode d A B)"
    using assms(1) d by (auto simp: not_Enter.simps)
  show ?thesis
    using e by (simp add: not_walk.simps [of "UnaryNode uop (BinaryNode bop A B)"])
qed

theorem not_Enter_dual_witness:
  "not_Enter (UnaryNode ''not'' (BinaryNode ''and'' (IdentifierNode ''a'') (IdentifierNode ''b'')))
     = (BinaryNode ''or'' (UnaryNode ''not'' (IdentifierNode ''a''))
         (UnaryNode ''not'' (IdentifierNode ''b'')) :: unit node)
   \<and> not_Enter (UnaryNode ''!'' (BinaryNode ''||'' (IdentifierNode ''a'') (IdentifierNode ''b'')))
     = (BinaryNode ''&&'' (UnaryNode ''!'' (IdentifierNode ''a''))
         (UnaryNode ''!'' (IdentifierNode ''b'')) :: unit node)
   \<and> not_Enter (UnaryNode ''not'' (BinaryNode ''<'' (IdentifierNode ''a'') (IntegerNode 3)))
     = (BinaryNode ''>='' (IdentifierNode ''a'') (IntegerNode 3) :: unit node)"
  using not_Enter_dual [of "''not''" "''and''" "''or''" "IdentifierNode ''a'' :: unit node"
      "IdentifierNode ''b''"]
    not_Enter_dual [of "''!''" "''||''" "''&&''" "IdentifierNode ''a'' :: unit node"
      "IdentifierNode ''b''"]
    not_Enter_dual [of "''not''" "''<''" "''>=''" "IdentifierNode ''a'' :: unit node"
      "IntegerNode 3"]
  by simp

section \<open>Properties of the DNF converter\<close>

lemma dnf_Exit_no_rewrite:
  "\<not> (dnf.depth f = 0 \<and> conjunction_over_disjunction n) \<Longrightarrow>
   dnf_Exit n f = (n, f\<lparr>dnf.depth := dnf.depth f - 1\<rparr>)"
  by (auto simp: dnf_Exit_def conjunction_over_disjunction_def is_disjunction_def
      asBinaryAnd_def asBinaryOr_def split: node.splits)

lemma dnf_Exit_left:
  "dnf.depth f = 0 \<Longrightarrow> aop = ''and'' \<or> aop = ''&&'' \<Longrightarrow> oop = ''or'' \<or> oop = ''||'' \<Longrightarrow>
   dnf_Exit (BinaryNode aop (BinaryNode oop B C) D) f =
     (BinaryNode oop (BinaryNode aop B D) (BinaryNode aop C D), f\<lparr>applied := True\<rparr>)"
  by (auto simp: dnf_Exit_def asBinaryAnd_def asBinaryOr_def)

lemma dnf_Exit_right:
  "dnf.depth f = 0 \<Longrightarrow> aop = ''and'' \<or> aop = ''&&'' \<Longrightarrow> oop = ''or'' \<or> oop = ''||'' \<Longrightarrow>
   \<not> is_disjunction A \<Longrightarrow>
   dnf_Exit (BinaryNode aop A (BinaryNode oop B C)) f =
     (BinaryNode oop (BinaryNode aop A B) (BinaryNode aop A C), f\<lparr>applied := True\<rparr>)"
  by (auto simp: dnf_Exit_def asBinaryAnd_def asBinaryOr_def is_disjunction_def
      split: node.splits)

lemma dnf_walk_nodes_deep:
  "(\<And>x f. x \<in> set ns \<Longrightarrow> dnf.depth f > 0 \<Longrightarrow> walk dnf_Enter dnf_Exit x f = (x, f)) \<Longrightarrow>
   dnf.depth f > 0 \<Longrightarrow> walk_nodes dnf_Enter dnf_Exit ns f = (ns, f)"
  by (induction ns arbitrary: f) auto

lemma dnf_walk_deep:
  "dnf.depth f > 0 \<Longrightarrow> walk dnf_Enter dnf_Exit n f = (n, f)"
  by (induction n arbitrary: f)
     (simp_all add: dnf_Enter_def dnf_Exit_def dnf_walk_nodes_deep)

lemma dnf_walk_nodes_deep':
  "dnf.depth f > 0 \<Longrightarrow> walk_nodes dnf_Enter dnf_Exit ns f = (ns, f)"
  by (rule dnf_walk_nodes_deep) (auto simp: dnf_walk_deep)

lemma dnf_walk_outside_chain:
  "asBinaryAnd n = None \<Longrightarrow> asBinaryOr n = None \<Longrightarrow> walk dnf_Enter dnf_Exit n f = (n, f)"
proof (cases "dnf.depth f > 0")
  case True
  then show ?thesis by (rule dnf_walk_deep)
next
  case False
  assume "asBinaryAnd n = None" "asBinaryOr n = None"
  with False show ?thesis
    by (cases n)
       (auto simp: dnf_Enter_def dnf_Exit_def dnf_walk_deep dnf_walk_nodes_deep'
          asBinaryAnd_def asBinaryOr_def split: if_splits)
qed

lemma dnf_Enter_chain:
  "dnf_Enter n f =
     (if dnf.depth f = 0 \<and> is_connective n then f else f\<lparr>dnf.depth := dnf.depth f + 1\<rparr>)"
  by (cases n) (auto simp: dnf_Enter_def is_connective_def)

lemma dnf_Exit_depth_0: "dnf.depth f = 0 \<Longrightarrow> dnf.depth (snd (dnf_Exit n f)) = 0"
  by (simp add: dnf_Exit_def split: option.splits prod.splits)

lemma dnf_walk_depth: "dnf.depth (snd (walk dnf_Enter dnf_Exit n f)) = dnf.depth f"
proof (cases "dnf.depth f > 0")
  case True
  then show ?thesis by (simp add: dnf_walk_deep)
next
  case False
  then have "dnf.depth f = 0 \<Longrightarrow> dnf.depth (snd (walk dnf_Enter dnf_Exit n f)) = 0"
  proof (induction n arbitrary: f)
    case (BinaryNode op l r)
    show ?case
    proof (cases "is_connective (BinaryNode op l r)")
      case True
      then have e: "dnf_Enter (BinaryNode op l r) f = f"
        using BinaryNode.prems by (simp add: dnf_Enter_chain)
      obtain l' f1 where l: "walk dnf_Enter dnf_Exit l f = (l', f1)" by (cases "walk dnf_Enter dnf_Exit l f")
      obtain r' f2 where r: "walk dnf_Enter dnf_Exit r f1 = (r', f2)" by (cases "walk dnf_Enter dnf_Exit r f1")
      from BinaryNode.IH(1) [of f] BinaryNode.prems l have "dnf.depth f1 = 0" by simp
      with BinaryNode.IH(2) [of f1] r have "dnf.depth f2 = 0" by simp
      then show ?thesis using e l r by (simp add: dnf_Exit_depth_0)
    next
      case False
      then have "asBinaryAnd (BinaryNode op l r) = None" "asBinaryOr (BinaryNode op l r) = None"
        by (auto simp: is_connective_def asBinaryAnd_def asBinaryOr_def)
      then show ?thesis using BinaryNode.prems by (simp add: dnf_walk_outside_chain del: walk.simps)
    qed
  qed (simp_all add: dnf_walk_outside_chain asBinaryAnd_def asBinaryOr_def del: walk.simps)
  with False show ?thesis by simp
qed

lemma dnf_walk_chain:
  assumes "dnf.depth f = 0" "op = ''and'' \<or> op = ''&&'' \<or> op = ''or'' \<or> op = ''||''"
  shows "walk dnf_Enter dnf_Exit (BinaryNode op l r) f =
     (case walk dnf_Enter dnf_Exit l f of
        (l', f1) \<Rightarrow> (case walk dnf_Enter dnf_Exit r f1 of
        (r', f2) \<Rightarrow> dnf_Exit (BinaryNode op l' r') f2))"
  using assms by (simp add: dnf_Enter_chain is_connective_def)

lemma dnf_walk_or:
  assumes "dnf.depth f = 0" "oop = ''or'' \<or> oop = ''||''"
  shows "walk dnf_Enter dnf_Exit (BinaryNode oop l r) f =
     (case walk dnf_Enter dnf_Exit l f of
        (l', f1) \<Rightarrow> (case walk dnf_Enter dnf_Exit r f1 of
        (r', f2) \<Rightarrow> (BinaryNode oop l' r', f2)))"
proof -
  obtain l' f1 where l: "walk dnf_Enter dnf_Exit l f = (l', f1)" by (cases "walk dnf_Enter dnf_Exit l f")
  obtain r' f2 where r: "walk dnf_Enter dnf_Exit r f1 = (r', f2)" by (cases "walk dnf_Enter dnf_Exit r f1")
  have "dnf.depth f1 = 0" using dnf_walk_depth [of l f] l assms by simp
  then have "dnf.depth f2 = 0" using dnf_walk_depth [of r f1] r by simp
  moreover have "\<not> conjunction_over_disjunction (BinaryNode oop l' r')"
    using assms(2) by (auto simp: conjunction_over_disjunction_def)
  ultimately have "dnf_Exit (BinaryNode oop l' r') f2 = (BinaryNode oop l' r', f2)"
    by (simp add: dnf_Exit_no_rewrite)
  then show ?thesis using assms l r by (simp add: dnf_walk_chain del: walk.simps)
qed

lemma dnf_walk_left:
  assumes "dnf.depth f = 0" "aop = ''and'' \<or> aop = ''&&''" "oop = ''or'' \<or> oop = ''||''"
  shows "walk dnf_Enter dnf_Exit (BinaryNode aop (BinaryNode oop B C) D) f =
     (case walk dnf_Enter dnf_Exit B f of
        (B', f1) \<Rightarrow> (case walk dnf_Enter dnf_Exit C f1 of
        (C', f2) \<Rightarrow> (case walk dnf_Enter dnf_Exit D f2 of
        (D', f3) \<Rightarrow>
          (BinaryNode oop (BinaryNode aop B' D') (BinaryNode aop C' D'), f3\<lparr>applied := True\<rparr>))))"
proof -
  obtain B' f1 where b: "walk dnf_Enter dnf_Exit B f = (B', f1)" by (cases "walk dnf_Enter dnf_Exit B f")
  obtain C' f2 where c: "walk dnf_Enter dnf_Exit C f1 = (C', f2)" by (cases "walk dnf_Enter dnf_Exit C f1")
  obtain D' f3 where d: "walk dnf_Enter dnf_Exit D f2 = (D', f3)" by (cases "walk dnf_Enter dnf_Exit D f2")
  have "dnf.depth f1 = 0" using dnf_walk_depth [of B f] b assms by simp
  then have "dnf.depth f2 = 0" using dnf_walk_depth [of C f1] c by simp
  then have 3: "dnf.depth f3 = 0" using dnf_walk_depth [of D f2] d by simp
  have "walk dnf_Enter dnf_Exit (BinaryNode oop B C) f = (BinaryNode oop B' C', f2)"
    using assms b c by (simp add: dnf_walk_or del: walk.simps)
  then have "walk dnf_Enter dnf_Exit (BinaryNode aop (BinaryNode oop B C) D) f =
      dnf_Exit (BinaryNode aop (BinaryNode oop B' C') D') f3"
    using assms(1,2) d dnf_walk_chain [of f aop "BinaryNode oop B C" D]
    by (auto simp del: walk.simps)
  then show ?thesis using assms 3 b c d by (simp add: dnf_Exit_left del: walk.simps)
qed

lemma dnf_walk_right:
  assumes "dnf.depth f = 0" "aop = ''and'' \<or> aop = ''&&''" "oop = ''or'' \<or> oop = ''||''"
    and "\<not> is_disjunction (fst (walk dnf_Enter dnf_Exit A f))"
  shows "walk dnf_Enter dnf_Exit (BinaryNode aop A (BinaryNode oop B C)) f =
     (case walk dnf_Enter dnf_Exit A f of
        (A', f1) \<Rightarrow> (case walk dnf_Enter dnf_Exit B f1 of
        (B', f2) \<Rightarrow> (case walk dnf_Enter dnf_Exit C f2 of
        (C', f3) \<Rightarrow>
          (BinaryNode oop (BinaryNode aop A' B') (BinaryNode aop A' C'), f3\<lparr>applied := True\<rparr>))))"
proof -
  obtain A' f1 where a: "walk dnf_Enter dnf_Exit A f = (A', f1)" by (cases "walk dnf_Enter dnf_Exit A f")
  obtain B' f2 where b: "walk dnf_Enter dnf_Exit B f1 = (B', f2)" by (cases "walk dnf_Enter dnf_Exit B f1")
  obtain C' f3 where c: "walk dnf_Enter dnf_Exit C f2 = (C', f3)" by (cases "walk dnf_Enter dnf_Exit C f2")
  have 1: "dnf.depth f1 = 0" using dnf_walk_depth [of A f] a assms by simp
  then have "dnf.depth f2 = 0" using dnf_walk_depth [of B f1] b by simp
  then have 3: "dnf.depth f3 = 0" using dnf_walk_depth [of C f2] c by simp
  have "walk dnf_Enter dnf_Exit (BinaryNode oop B C) f1 = (BinaryNode oop B' C', f3)"
    using assms 1 b c by (simp add: dnf_walk_or del: walk.simps)
  then have "walk dnf_Enter dnf_Exit (BinaryNode aop A (BinaryNode oop B C)) f =
      dnf_Exit (BinaryNode aop A' (BinaryNode oop B' C')) f3"
    using assms(1,2) a dnf_walk_chain [of f aop A "BinaryNode oop B C"]
    by (auto simp del: walk.simps)
  moreover have "\<not> is_disjunction A'" using assms(4) a by simp
  ultimately show ?thesis using assms 3 a b c by (simp add: dnf_Exit_right del: walk.simps)
qed


lemma dnf_round_left:
  assumes "aop = ''and'' \<or> aop = ''&&''" "oop = ''or'' \<or> oop = ''||''"
    and "\<not> is_connective B" "\<not> is_connective C" "\<not> is_connective D"
  shows "dnf_round (BinaryNode aop (BinaryNode oop B C) D) =
     (BinaryNode oop (BinaryNode aop B D) (BinaryNode aop C D),
      \<lparr>dnf.depth = 0, applied = True\<rparr>)"
proof -
  have "asBinaryAnd x = None \<and> asBinaryOr x = None" if "\<not> is_connective x" for x :: "'a node"
    using that by (cases x) (auto simp: is_connective_def asBinaryAnd_def asBinaryOr_def)
  with assms(3-5) have "walk dnf_Enter dnf_Exit B f = (B, f)" "walk dnf_Enter dnf_Exit C f = (C, f)"
    "walk dnf_Enter dnf_Exit D f = (D, f)" for f
    by (simp_all add: dnf_walk_outside_chain del: walk.simps)
  then show ?thesis
    using assms(1,2) dnf_walk_left [of "\<lparr>dnf.depth = 0, applied = False\<rparr>" aop oop B C D]
    by (simp add: dnf_round_def del: walk.simps)
qed

lemma dnf_round_right:
  assumes "aop = ''and'' \<or> aop = ''&&''" "oop = ''or'' \<or> oop = ''||''"
    and "\<not> is_connective A" "\<not> is_connective B" "\<not> is_connective C"
  shows "dnf_round (BinaryNode aop A (BinaryNode oop B C)) =
     (BinaryNode oop (BinaryNode aop A B) (BinaryNode aop A C),
      \<lparr>dnf.depth = 0, applied = True\<rparr>)"
proof -
  have "asBinaryAnd x = None \<and> asBinaryOr x = None" if "\<not> is_connective x" for x :: "'a node"
    using that by (cases x) (auto simp: is_connective_def asBinaryAnd_def asBinaryOr_def)
  with assms(3-5) have w: "walk dnf_Enter dnf_Exit A f = (A, f)" "walk dnf_Enter dnf_Exit B f = (B, f)"
    "walk dnf_Enter dnf_Exit C f = (C, f)" for f
    by (simp_all add: dnf_walk_outside_chain del: walk.simps)
  have "\<not> is_disjunction A"
    using assms(3) by (cases A) (auto simp: is_connective_def is_disjunction_def)
  then show ?thesis
    using assms(1,2) w dnf_walk_right [of "\<lparr>dnf.depth = 0, applied = False\<rparr>" aop oop A B C]
    by (simp add: dnf_round_def del: walk.simps)
qed

lemma dnf_round_outside_chain:
  "\<not> is_connective n \<Longrightarrow> dnf_round n = (n, \<lparr>dnf.depth = 0, applied = False\<rparr>)"
  unfolding dnf_round_def
  by (rule dnf_walk_outside_chain; cases n)
     (auto simp: is_connective_def asBinaryAnd_def asBinaryOr_def)

text \<open>
  Claim C6.  In a DNF round, which is a walk that starts at depth zero, \<^verbatim>\<open>dnf.Enter\<close>
  leaves the depth at zero on a conjunction (and, &&) or a disjunction (or, ||) met at
  depth zero and counts it up on every other node; a walk gives the depth back as it
  found it, so the walk of a connective of the outermost chain is the exit, at depth zero,
  of the node with its walked children.  \<^verbatim>\<open>dnf.Exit\<close> applies the rewrite exactly at depth
  zero on a conjunction one of whose children is a disjunction: \<^verbatim>\<open>(B or C) and D\<close> becomes
  \<^verbatim>\<open>(B and D) or (C and D)\<close>, and \<^verbatim>\<open>A and (B or C)\<close>, with \<open>A\<close> not a disjunction, becomes
  \<^verbatim>\<open>(A and B) or (A and C)\<close>; the visitor then records that a rewrite was applied.  Any
  other exit leaves the node and the record alone and only counts the depth down.  So a
  walk from depth zero, and a whole round, rewrites \<^verbatim>\<open>(B or C) and D\<close> and
  \<^verbatim>\<open>A and (B or C)\<close> (the operands as their own walks leave them).  A walk that starts at
  positive depth, and a walk or a round on a node that is neither a conjunction nor a
  disjunction (a comparison, a function call), changes nothing.
\<close>

theorem dnf_rewrite_fires_exactly:
  "(dnf.depth f = 0 \<and> (aop = ''and'' \<or> aop = ''&&'') \<and> (oop = ''or'' \<or> oop = ''||'') \<longrightarrow>
      dnf_Exit (BinaryNode aop (BinaryNode oop B C) D) f =
        (BinaryNode oop (BinaryNode aop B D) (BinaryNode aop C D), f\<lparr>applied := True\<rparr>)
      \<and> (\<not> is_disjunction A \<longrightarrow>
         dnf_Exit (BinaryNode aop A (BinaryNode oop B C)) f =
           (BinaryNode oop (BinaryNode aop A B) (BinaryNode aop A C), f\<lparr>applied := True\<rparr>)))
   \<and> (\<not> (dnf.depth f = 0 \<and> conjunction_over_disjunction n) \<longrightarrow>
      dnf_Exit n f = (n, f\<lparr>dnf.depth := dnf.depth f - 1\<rparr>))
   \<and> (dnf.depth f > 0 \<longrightarrow> walk dnf_Enter dnf_Exit n f = (n, f))
   \<and> (asBinaryAnd n = None \<and> asBinaryOr n = None \<longrightarrow> walk dnf_Enter dnf_Exit n f = (n, f))
   \<and> dnf_Enter n f =
       (if dnf.depth f = 0 \<and> is_connective n then f else f\<lparr>dnf.depth := dnf.depth f + 1\<rparr>)
   \<and> dnf.depth (snd (walk dnf_Enter dnf_Exit n f)) = dnf.depth f
   \<and> (dnf.depth f = 0 \<and> is_connective (BinaryNode op l r) \<longrightarrow>
      walk dnf_Enter dnf_Exit (BinaryNode op l r) f =
        (case walk dnf_Enter dnf_Exit l f of
           (l', f1) \<Rightarrow> (case walk dnf_Enter dnf_Exit r f1 of
           (r', f2) \<Rightarrow> dnf_Exit (BinaryNode op l' r') f2)))
   \<and> (dnf.depth f = 0 \<and> (aop = ''and'' \<or> aop = ''&&'') \<and> (oop = ''or'' \<or> oop = ''||'') \<longrightarrow>
      walk dnf_Enter dnf_Exit (BinaryNode aop (BinaryNode oop B C) D) f =
        (case walk dnf_Enter dnf_Exit B f of
           (B', f1) \<Rightarrow> (case walk dnf_Enter dnf_Exit C f1 of
           (C', f2) \<Rightarrow> (case walk dnf_Enter dnf_Exit D f2 of
           (D', f3) \<Rightarrow>
             (BinaryNode oop (BinaryNode aop B' D') (BinaryNode aop C' D'),
              f3\<lparr>applied := True\<rparr>))))
      \<and> (\<not> is_disjunction (fst (walk dnf_Enter dnf_Exit A f)) \<longrightarrow>
         walk dnf_Enter dnf_Exit (BinaryNode aop A (BinaryNode oop B C)) f =
           (case walk dnf_Enter dnf_Exit A f of
              (A', f1) \<Rightarrow> (case walk dnf_Enter dnf_Exit B f1 of
              (B', f2) \<Rightarrow> (case walk dnf_Enter dnf_Exit C f2 of
              (C', f3) \<Rightarrow>
                (BinaryNode oop (BinaryNode aop A' B') (BinaryNode aop A' C'),
                 f3\<lparr>applied := True\<rparr>))))))
   \<and> ((aop = ''and'' \<or> aop = ''&&'') \<and> (oop = ''or'' \<or> oop = ''||'')
        \<and> \<not> is_connective B \<and> \<not> is_connective C \<longrightarrow>
      (\<not> is_connective D \<longrightarrow>
         dnf_round (BinaryNode aop (BinaryNode oop B C) D) =
           (BinaryNode oop (BinaryNode aop B D) (BinaryNode aop C D),
            \<lparr>dnf.depth = 0, applied = True\<rparr>))
      \<and> (\<not> is_connective A \<longrightarrow>
         dnf_round (BinaryNode aop A (BinaryNode oop B C)) =
           (BinaryNode oop (BinaryNode aop A B) (BinaryNode aop A C),
            \<lparr>dnf.depth = 0, applied = True\<rparr>)))
   \<and> (\<not> is_connective n \<longrightarrow> dnf_round n = (n, \<lparr>dnf.depth = 0, applied = False\<rparr>))"
proof -
  have exit_fires: "dnf.depth f = 0 \<and> (aop = ''and'' \<or> aop = ''&&'') \<and> (oop = ''or'' \<or> oop = ''||'') \<longrightarrow>
      dnf_Exit (BinaryNode aop (BinaryNode oop B C) D) f =
        (BinaryNode oop (BinaryNode aop B D) (BinaryNode aop C D), f\<lparr>applied := True\<rparr>)
      \<and> (\<not> is_disjunction A \<longrightarrow>
         dnf_Exit (BinaryNode aop A (BinaryNode oop B C)) f =
           (BinaryNode oop (BinaryNode aop A B) (BinaryNode aop A C), f\<lparr>applied := True\<rparr>))"
    using dnf_Exit_left [of f aop oop B C D] dnf_Exit_right [of f aop oop A B C] by blast
  have exit_else: "\<not> (dnf.depth f = 0 \<and> conjunction_over_disjunction n) \<longrightarrow>
      dnf_Exit n f = (n, f\<lparr>dnf.depth := dnf.depth f - 1\<rparr>)"
    using dnf_Exit_no_rewrite [of f n] by blast
  have deep: "dnf.depth f > 0 \<longrightarrow> walk dnf_Enter dnf_Exit n f = (n, f)"
    using dnf_walk_deep [of f n] by blast
  have outside: "asBinaryAnd n = None \<and> asBinaryOr n = None \<longrightarrow>
      walk dnf_Enter dnf_Exit n f = (n, f)"
    using dnf_walk_outside_chain [of n f] by blast
  have chain: "dnf.depth f = 0 \<and> is_connective (BinaryNode op l r) \<longrightarrow>
      walk dnf_Enter dnf_Exit (BinaryNode op l r) f =
        (case walk dnf_Enter dnf_Exit l f of
           (l', f1) \<Rightarrow> (case walk dnf_Enter dnf_Exit r f1 of
           (r', f2) \<Rightarrow> dnf_Exit (BinaryNode op l' r') f2))"
    using dnf_walk_chain [of f op l r] by (simp add: is_connective_def del: walk.simps)
  have walk_fires: "dnf.depth f = 0 \<and> (aop = ''and'' \<or> aop = ''&&'') \<and> (oop = ''or'' \<or> oop = ''||'') \<longrightarrow>
      walk dnf_Enter dnf_Exit (BinaryNode aop (BinaryNode oop B C) D) f =
        (case walk dnf_Enter dnf_Exit B f of
           (B', f1) \<Rightarrow> (case walk dnf_Enter dnf_Exit C f1 of
           (C', f2) \<Rightarrow> (case walk dnf_Enter dnf_Exit D f2 of
           (D', f3) \<Rightarrow>
             (BinaryNode oop (BinaryNode aop B' D') (BinaryNode aop C' D'),
              f3\<lparr>applied := True\<rparr>))))
      \<and> (\<not> is_disjunction (fst (walk dnf_Enter dnf_Exit A f)) \<longrightarrow>
         walk dnf_Enter dnf_Exit (BinaryNode aop A (BinaryNode oop B C)) f =
           (case walk dnf_Enter dnf_Exit A f of
              (A', f1) \<Rightarrow> (case walk dnf_Enter dnf_Exit B f1 of
              (B', f2) \<Rightarrow> (case walk dnf_Enter dnf_Exit C f2 of
              (C', f3) \<Rightarrow>
                (BinaryNode oop (BinaryNode aop A' B') (BinaryNode aop A' C'),
                 f3\<lparr>applied := True\<rparr>)))))"
    using dnf_walk_left [of f aop oop B C D] dnf_walk_right [of f aop oop A B C] by blast
  have round_fires: "(aop = ''and'' \<or> aop = ''&&'') \<and> (oop = ''or'' \<or> oop = ''||'')
        \<and> \<not> is_connective B \<and> \<not> is_connective C \<longrightarrow>
      (\<not> is_connective D \<longrightarrow>
         dnf_round (BinaryNode aop (BinaryNode oop B C) D) =
           (BinaryNode oop (BinaryNode aop B D) (BinaryNode aop C D),
            \<lparr>dnf.depth = 0, applied = True\<rparr>))
      \<and> (\<not> is_connective A \<longrightarrow>
         dnf_round (BinaryNode aop A (BinaryNode oop B C)) =
           (BinaryNode oop (BinaryNode aop A B) (BinaryNode aop A C),
            \<lparr>dnf.depth = 0, applied = True\<rparr>))"
    using dnf_round_left [of aop oop B C D] dnf_round_right [of aop oop A B C] by blast
  have round_else: "\<not> is_connective n \<longrightarrow> dnf_round n = (n, \<lparr>dnf.depth = 0, applied = False\<rparr>)"
    using dnf_round_outside_chain [of n] by blast
  show ?thesis
    by (intro conjI exit_fires exit_else deep outside dnf_Enter_chain dnf_walk_depth chain
        walk_fires round_fires round_else)
qed

theorem dnf_rewrite_fires_exactly_witness:
  "dnf_Exit (BinaryNode ''and'' (BinaryNode ''or'' (IdentifierNode ''b'') (IdentifierNode ''c''))
        (IdentifierNode ''d'') :: unit node) \<lparr>dnf.depth = 0, applied = False\<rparr> =
     (BinaryNode ''or'' (BinaryNode ''and'' (IdentifierNode ''b'') (IdentifierNode ''d''))
        (BinaryNode ''and'' (IdentifierNode ''c'') (IdentifierNode ''d'')),
      \<lparr>dnf.depth = 0, applied = True\<rparr>)
   \<and> dnf_Exit (BinaryNode ''&&'' (IdentifierNode ''a'')
        (BinaryNode ''||'' (IdentifierNode ''b'') (IdentifierNode ''c'')) :: unit node)
        \<lparr>dnf.depth = 0, applied = False\<rparr> =
     (BinaryNode ''||'' (BinaryNode ''&&'' (IdentifierNode ''a'') (IdentifierNode ''b''))
        (BinaryNode ''&&'' (IdentifierNode ''a'') (IdentifierNode ''c'')),
      \<lparr>dnf.depth = 0, applied = True\<rparr>)
   \<and> dnf_Exit (BinaryNode ''and'' (BinaryNode ''or'' (IdentifierNode ''b'') (IdentifierNode ''c''))
        (IdentifierNode ''d'') :: unit node) \<lparr>dnf.depth = 1, applied = False\<rparr> =
     (BinaryNode ''and'' (BinaryNode ''or'' (IdentifierNode ''b'') (IdentifierNode ''c''))
        (IdentifierNode ''d''), \<lparr>dnf.depth = 0, applied = False\<rparr>)
   \<and> walk dnf_Enter dnf_Exit (FunctionNode ''f''
        [BinaryNode ''and'' (BinaryNode ''or'' (IdentifierNode ''b'') (IdentifierNode ''c''))
          (IdentifierNode ''d'')] :: unit node) \<lparr>dnf.depth = 0, applied = False\<rparr> =
     (FunctionNode ''f''
        [BinaryNode ''and'' (BinaryNode ''or'' (IdentifierNode ''b'') (IdentifierNode ''c''))
          (IdentifierNode ''d'')], \<lparr>dnf.depth = 0, applied = False\<rparr>)
   \<and> dnf_round (BinaryNode ''and'' (BinaryNode ''or'' (IdentifierNode ''b'') (IdentifierNode ''c''))
        (IdentifierNode ''d'') :: unit node) =
     (BinaryNode ''or'' (BinaryNode ''and'' (IdentifierNode ''b'') (IdentifierNode ''d''))
        (BinaryNode ''and'' (IdentifierNode ''c'') (IdentifierNode ''d'')),
      \<lparr>dnf.depth = 0, applied = True\<rparr>)
   \<and> dnf_round (BinaryNode ''&&'' (IdentifierNode ''a'')
        (BinaryNode ''||'' (IdentifierNode ''b'') (IdentifierNode ''c'')) :: unit node) =
     (BinaryNode ''||'' (BinaryNode ''&&'' (IdentifierNode ''a'') (IdentifierNode ''b''))
        (BinaryNode ''&&'' (IdentifierNode ''a'') (IdentifierNode ''c'')),
      \<lparr>dnf.depth = 0, applied = True\<rparr>)
   \<and> dnf_round (BinaryNode ''==''
        (BinaryNode ''and'' (BinaryNode ''or'' (IdentifierNode ''b'') (IdentifierNode ''c''))
          (IdentifierNode ''d'')) (IdentifierNode ''a'') :: unit node) =
     (BinaryNode ''==''
        (BinaryNode ''and'' (BinaryNode ''or'' (IdentifierNode ''b'') (IdentifierNode ''c''))
          (IdentifierNode ''d'')) (IdentifierNode ''a''), \<lparr>dnf.depth = 0, applied = False\<rparr>)
   \<and> dnf_Enter (BinaryNode ''||'' (IdentifierNode ''b'') (IdentifierNode ''c'') :: unit node)
        \<lparr>dnf.depth = 0, applied = False\<rparr> = \<lparr>dnf.depth = 0, applied = False\<rparr>
   \<and> dnf_Enter (IdentifierNode ''b'' :: unit node) \<lparr>dnf.depth = 0, applied = False\<rparr> =
        \<lparr>dnf.depth = 1, applied = False\<rparr>"
proof -
  let ?f0 = "\<lparr>dnf.depth = 0, applied = False\<rparr>"
  let ?a = "IdentifierNode ''a'' :: unit node"
  let ?b = "IdentifierNode ''b'' :: unit node"
  let ?c = "IdentifierNode ''c'' :: unit node"
  let ?d = "IdentifierNode ''d'' :: unit node"
  let ?n = "BinaryNode ''and'' (BinaryNode ''or'' ?b ?c) ?d"
  have leaf: "\<not> is_connective ?a" "\<not> is_connective ?b" "\<not> is_connective ?c" "\<not> is_connective ?d"
    "\<not> is_connective (FunctionNode ''f'' [?n])" "\<not> is_connective (BinaryNode ''=='' ?n ?a)"
    "is_connective (BinaryNode ''||'' ?b ?c)"
    by (simp_all add: is_connective_def)
  have left: "dnf_Exit ?n ?f0 =
      (BinaryNode ''or'' (BinaryNode ''and'' ?b ?d) (BinaryNode ''and'' ?c ?d),
       \<lparr>dnf.depth = 0, applied = True\<rparr>)"
    using dnf_rewrite_fires_exactly [of ?f0 "''and''" "''or''" ?b ?c ?d ?a ?a "''and''" ?a ?a]
    by simp
  have right: "dnf_Exit (BinaryNode ''&&'' ?a (BinaryNode ''||'' ?b ?c)) ?f0 =
      (BinaryNode ''||'' (BinaryNode ''&&'' ?a ?b) (BinaryNode ''&&'' ?a ?c),
       \<lparr>dnf.depth = 0, applied = True\<rparr>)"
    using dnf_rewrite_fires_exactly [of ?f0 "''&&''" "''||''" ?b ?c ?d ?a ?a "''and''" ?a ?a]
    by (simp add: is_disjunction_def)
  have deep: "dnf_Exit ?n \<lparr>dnf.depth = 1, applied = False\<rparr> = (?n, ?f0)"
    using dnf_rewrite_fires_exactly [of "\<lparr>dnf.depth = 1, applied = False\<rparr>" "''and''"
        "''or''" ?b ?c ?d ?a ?n "''and''" ?a ?a] by simp
  have "asBinaryAnd (FunctionNode ''f'' [?n]) = None \<and> asBinaryOr (FunctionNode ''f'' [?n]) = None"
    by (simp add: asBinaryAnd_def asBinaryOr_def)
  with dnf_rewrite_fires_exactly [of ?f0 "''and''" "''or''" ?b ?c ?d ?a "FunctionNode ''f'' [?n]"
      "''and''" ?a ?a]
  have arg: "walk dnf_Enter dnf_Exit (FunctionNode ''f'' [?n]) ?f0 = (FunctionNode ''f'' [?n], ?f0)"
    by blast
  have "(''and'' = ''and'' \<or> ''and'' = ''&&'') \<and> (''or'' = ''or'' \<or> ''or'' = ''||'')" by simp
  with leaf dnf_rewrite_fires_exactly [of ?f0 "''and''" "''or''" ?b ?c ?d ?a ?a "''and''" ?a ?a]
  have round_left: "dnf_round ?n =
      (BinaryNode ''or'' (BinaryNode ''and'' ?b ?d) (BinaryNode ''and'' ?c ?d),
       \<lparr>dnf.depth = 0, applied = True\<rparr>)"
    by blast
  have "(''&&'' = ''and'' \<or> ''&&'' = ''&&'') \<and> (''||'' = ''or'' \<or> ''||'' = ''||'')" by simp
  with leaf dnf_rewrite_fires_exactly [of ?f0 "''&&''" "''||''" ?b ?c ?d ?a ?a "''and''" ?a ?a]
  have round_right: "dnf_round (BinaryNode ''&&'' ?a (BinaryNode ''||'' ?b ?c)) =
      (BinaryNode ''||'' (BinaryNode ''&&'' ?a ?b) (BinaryNode ''&&'' ?a ?c),
       \<lparr>dnf.depth = 0, applied = True\<rparr>)"
    by blast
  from leaf dnf_rewrite_fires_exactly [of ?f0 "''and''" "''or''" ?b ?c ?d ?a
      "BinaryNode ''=='' ?n ?a" "''and''" ?a ?a]
  have operand: "dnf_round (BinaryNode ''=='' ?n ?a) = (BinaryNode ''=='' ?n ?a, ?f0)"
    by blast
  from leaf dnf_rewrite_fires_exactly [of ?f0 "''and''" "''or''" ?b ?c ?d ?a
      "BinaryNode ''||'' ?b ?c" "''and''" ?a ?a]
  have enter_chain: "dnf_Enter (BinaryNode ''||'' ?b ?c) ?f0 = ?f0"
    by simp
  from leaf dnf_rewrite_fires_exactly [of ?f0 "''and''" "''or''" ?b ?c ?d ?a ?b "''and''" ?a ?a]
  have enter_leaf: "dnf_Enter ?b ?f0 = \<lparr>dnf.depth = 1, applied = False\<rparr>"
    by simp
  from left right deep arg round_left round_right operand enter_chain enter_leaf
  show ?thesis by blast
qed

lemma toDNF_loop_negative: "limit < 0 \<Longrightarrow> toDNF_loop limit node = (node, 0)"
  by (simp add: toDNF_loop.simps)

lemma toDNF_loop_stop:
  "limit \<ge> 0 \<Longrightarrow> \<not> round_applied node \<Longrightarrow> toDNF_loop limit node = (round_tree node, 1)"
  by (cases "dnf_round node")
     (simp add: toDNF_loop.simps [of limit node] round_applied_def round_tree_def)

lemma toDNF_loop_continue:
  "limit \<ge> 0 \<Longrightarrow> round_applied node \<Longrightarrow>
   toDNF_loop limit node =
     (fst (toDNF_loop (limit - 1) (round_tree node)),
      snd (toDNF_loop (limit - 1) (round_tree node)) + 1)"
  by (cases "dnf_round node")
     (simp add: toDNF_loop.simps [of limit node] round_applied_def round_tree_def
        split: prod.splits)

lemma toDNF_loop_spec:
  "limit \<ge> 0 \<Longrightarrow> loop_spec (nat (limit + 1)) node (toDNF_loop limit node)"
proof (induction limit node rule: toDNF_loop.induct)
  case (1 limit node)
  show ?case
  proof (cases "round_applied node")
    case False
    with "1.prems" show ?thesis
      by (simp add: toDNF_loop_stop loop_spec_def)
  next
    case True
    note app = this
    show ?thesis
    proof (cases "limit = 0")
      case True
      with app show ?thesis
        by (simp add: toDNF_loop_continue toDNF_loop_negative loop_spec_def)
    next
      case False
      with "1.prems" have pos: "limit - 1 \<ge> 0" by simp
      obtain t k where tk: "toDNF_loop (limit - 1) (round_tree node) = (t, k)"
        by (cases "toDNF_loop (limit - 1) (round_tree node)")
      have "loop_spec (nat (limit - 1 + 1)) (round_tree node) (t, k)"
        using "1.IH" [of "round_tree node" "snd (dnf_round node)"] "1.prems" app pos tk
        by (simp add: round_tree_def round_applied_def split: prod.splits)
      then have ih: "1 \<le> k" "k \<le> nat limit" "t = (round_tree ^^ k) (round_tree node)"
        "\<forall>j < k - 1. round_applied ((round_tree ^^ j) (round_tree node))"
        "k < nat limit \<longrightarrow> \<not> round_applied ((round_tree ^^ (k - 1)) (round_tree node))"
        by (simp_all add: loop_spec_def)
      have res: "toDNF_loop limit node = (t, k + 1)"
        using "1.prems" app tk by (simp add: toDNF_loop_continue)
      have a: "\<forall>j < k. round_applied ((round_tree ^^ j) node)"
      proof (intro allI impI)
        fix j assume "j < k"
        show "round_applied ((round_tree ^^ j) node)"
        proof (cases j)
          case 0
          with app show ?thesis by simp
        next
          case (Suc i)
          with \<open>j < k\<close> ih(4) show ?thesis by (simp add: funpow_swap1)
        qed
      qed
      have b: "k + 1 < nat (limit + 1) \<longrightarrow> \<not> round_applied ((round_tree ^^ k) node)"
      proof
        assume "k + 1 < nat (limit + 1)"
        then have "k < nat limit" by simp
        with ih(5) have "\<not> round_applied ((round_tree ^^ (k - 1)) (round_tree node))" by simp
        moreover have "(round_tree ^^ (k - 1)) (round_tree node) = (round_tree ^^ k) node"
          using ih(1) by (cases k) (simp_all add: funpow_swap1)
        ultimately show "\<not> round_applied ((round_tree ^^ k) node)" by simp
      qed
      show ?thesis
        using ih(1,2,3) a b "1.prems" unfolding res loop_spec_def
        by (simp add: funpow_swap1)
    qed
  qed
qed

text \<open>
  Claim C7, as the code has it.  \<^verbatim>\<open>toDNF\<close> always returns (the loop counter goes from 1000
  down to 0, which is the termination proof of \<open>toDNF_loop\<close>): it runs between one and
  1001 whole-tree rounds, every round but the last applied a rewrite, and the last one
  either applied none or was round 1001.
\<close>

theorem toDNF_terminates_within_cap:
  "1 \<le> toDNF_rounds node \<and> toDNF_rounds node \<le> 1001
   \<and> toDNF node = (round_tree ^^ toDNF_rounds node) node
   \<and> (\<forall>j < toDNF_rounds node - 1. round_applied ((round_tree ^^ j) node))
   \<and> (toDNF_rounds node < 1001 \<longrightarrow>
        \<not> round_applied ((round_tree ^^ (toDNF_rounds node - 1)) node))"
  using toDNF_loop_spec [of 1000 node]
  by (simp add: loop_spec_def toDNF_def toDNF_rounds_def split: prod.splits)

lemma walk_identifier: "walk dnf_Enter dnf_Exit (IdentifierNode v) f = (IdentifierNode v, f)"
  by (rule dnf_walk_outside_chain) (simp_all add: asBinaryAnd_def asBinaryOr_def)

lemma walk_or_chain:
  "dnf.depth f = 0 \<Longrightarrow> walk dnf_Enter dnf_Exit (or_chain n) f = (or_chain n, f)"
  by (induction n)
     (simp_all add: walk_identifier dnf_Enter_def dnf_Exit_def asBinaryAnd_def
        del: walk.simps(8))

lemma walk_and_over_chain_0:
  "dnf.depth f = 0 \<Longrightarrow>
   walk dnf_Enter dnf_Exit (and_over_chain 0) f = (and_over_chain 0, f)"
  by (simp add: and_over_chain_def walk_identifier dnf_Enter_def dnf_Exit_def asBinaryAnd_def
      asBinaryOr_def del: walk.simps(8))

lemma asBinaryOr_or_chain:
  "asBinaryOr (or_chain (Suc n)) = Some (''or'', or_chain n, IdentifierNode ''a'')"
  by (simp add: asBinaryOr_def)

lemma walk_and_over_chain_Suc:
  "dnf.depth f = 0 \<Longrightarrow>
   walk dnf_Enter dnf_Exit (and_over_chain (Suc n)) f =
     (BinaryNode ''or'' (and_over_chain n) (and_over_chain 0), f\<lparr>applied := True\<rparr>)"
  by (simp add: and_over_chain_def walk_identifier walk_or_chain dnf_Enter_def dnf_Exit_def
      asBinaryAnd_def asBinaryOr_or_chain del: walk.simps(8) or_chain.simps(2))

lemma walk_or_spine:
  "dnf.depth f = 0 \<Longrightarrow> walk dnf_Enter dnf_Exit x f = (x', f') \<Longrightarrow> dnf.depth f' = 0 \<Longrightarrow>
   walk dnf_Enter dnf_Exit (or_spine k x) f = (or_spine k x', f')"
  by (induction k)
     (simp_all add: walk_and_over_chain_0 dnf_Enter_def dnf_Exit_def asBinaryAnd_def)

lemma or_spine_shift:
  "or_spine k (BinaryNode ''or'' x (and_over_chain 0)) = or_spine (Suc k) x"
  by (induction k) simp_all

lemma round_chain_0:
  "dnf_round (or_spine k (and_over_chain 0)) =
     (or_spine k (and_over_chain 0), \<lparr>dnf.depth = 0, applied = False\<rparr>)"
  unfolding dnf_round_def
  by (rule walk_or_spine) (simp_all add: walk_and_over_chain_0)

lemma round_chain_Suc:
  "dnf_round (or_spine k (and_over_chain (Suc n))) =
     (or_spine (Suc k) (and_over_chain n), \<lparr>dnf.depth = 0, applied = True\<rparr>)"
proof -
  have "walk dnf_Enter dnf_Exit (or_spine k (and_over_chain (Suc n)))
          \<lparr>dnf.depth = 0, applied = False\<rparr> =
        (or_spine k (BinaryNode ''or'' (and_over_chain n) (and_over_chain 0)),
         \<lparr>dnf.depth = 0, applied = True\<rparr>)"
    by (rule walk_or_spine) (simp_all add: walk_and_over_chain_Suc)
  then show ?thesis
    by (simp add: dnf_round_def or_spine_shift del: or_spine.simps)
qed

lemma rounds_of_chain:
  "limit \<ge> 0 \<Longrightarrow>
   snd (toDNF_loop limit (or_spine k (and_over_chain n :: 'f node))) =
     min (n + 1) (nat (limit + 1))"
proof (induction n arbitrary: limit k)
  case 0
  then show ?case by (simp add: toDNF_loop_stop round_applied_def round_chain_0)
next
  case (Suc n)
  show ?case
  proof (cases "limit = 0")
    case True
    then show ?thesis
      by (simp add: toDNF_loop_continue round_applied_def round_tree_def round_chain_Suc
          toDNF_loop_negative del: or_spine.simps)
  next
    case False
    with Suc.prems have "limit - 1 \<ge> 0" by simp
    from Suc.IH [OF this, of "Suc k"] Suc.prems show ?thesis
      by (simp add: toDNF_loop_continue round_applied_def round_tree_def round_chain_Suc
          del: or_spine.simps)
  qed
qed

text \<open>
  The bound of 1000 rounds of claim C7 fails: on \<^verbatim>\<open>(a or a or ... or a) and d\<close> with 1001
  disjunctions \<^verbatim>\<open>toDNF\<close> runs 1001 rounds.
\<close>

theorem toDNF_runs_1001_rounds:
  "toDNF_rounds (BinaryNode ''and'' (or_chain 1001) (IdentifierNode ''d'') :: unit node) = 1001
   \<and> \<not> toDNF_rounds (BinaryNode ''and'' (or_chain 1001) (IdentifierNode ''d'') :: unit node)
        \<le> 1000"
  using rounds_of_chain [where 'f = unit, of 1000 0 1001]
  by (simp add: toDNF_rounds_def and_over_chain_def)

theorem toDNF_terminates_within_cap_witness:
  "toDNF_rounds (BinaryNode ''and'' (IdentifierNode ''a'')
       (BinaryNode ''or'' (IdentifierNode ''b'') (IdentifierNode ''c'')) :: unit node) = 2
   \<and> toDNF (BinaryNode ''and'' (IdentifierNode ''a'')
       (BinaryNode ''or'' (IdentifierNode ''b'') (IdentifierNode ''c'')) :: unit node) =
     BinaryNode ''or'' (BinaryNode ''and'' (IdentifierNode ''a'') (IdentifierNode ''b''))
                       (BinaryNode ''and'' (IdentifierNode ''a'') (IdentifierNode ''c''))
   \<and> toDNF (BinaryNode ''and'' (IdentifierNode ''a'')
       (BinaryNode ''or'' (IdentifierNode ''b'') (IdentifierNode ''c'')) :: unit node) =
     (round_tree ^^ 2) (BinaryNode ''and'' (IdentifierNode ''a'')
       (BinaryNode ''or'' (IdentifierNode ''b'') (IdentifierNode ''c'')))
   \<and> round_applied (BinaryNode ''and'' (IdentifierNode ''a'')
       (BinaryNode ''or'' (IdentifierNode ''b'') (IdentifierNode ''c'')) :: unit node)
   \<and> \<not> round_applied (round_tree (BinaryNode ''and'' (IdentifierNode ''a'')
       (BinaryNode ''or'' (IdentifierNode ''b'') (IdentifierNode ''c'')) :: unit node))"
proof -
  let ?t = "BinaryNode ''and'' (IdentifierNode ''a'')
       (BinaryNode ''or'' (IdentifierNode ''b'') (IdentifierNode ''c'')) :: unit node"
  have run: "toDNF_loop 1000 ?t =
      (BinaryNode ''or'' (BinaryNode ''and'' (IdentifierNode ''a'') (IdentifierNode ''b''))
                         (BinaryNode ''and'' (IdentifierNode ''a'') (IdentifierNode ''c'')), 2)"
    by (simp add: toDNF_loop.simps dnf_round_def dnf_Enter_def dnf_Exit_def asBinaryAnd_def
        asBinaryOr_def)
  have rounds: "toDNF_rounds ?t = 2"
    by (simp add: toDNF_rounds_def run)
  have tree: "toDNF ?t =
      BinaryNode ''or'' (BinaryNode ''and'' (IdentifierNode ''a'') (IdentifierNode ''b''))
                        (BinaryNode ''and'' (IdentifierNode ''a'') (IdentifierNode ''c''))"
    by (simp add: toDNF_def run)
  note spec = toDNF_terminates_within_cap [of ?t]
  from spec have "toDNF ?t = (round_tree ^^ toDNF_rounds ?t) ?t" by blast
  then have iter: "toDNF ?t = (round_tree ^^ 2) ?t" by (simp only: rounds)
  from spec have "\<forall>j < toDNF_rounds ?t - 1. round_applied ((round_tree ^^ j) ?t)" by blast
  then have "\<forall>j < (1::nat). round_applied ((round_tree ^^ j) ?t)" by (simp only: rounds) simp
  then have first: "round_applied ?t" by simp
  from spec have "toDNF_rounds ?t < 1001 \<longrightarrow>
      \<not> round_applied ((round_tree ^^ (toDNF_rounds ?t - 1)) ?t)" by blast
  then have "\<not> round_applied ((round_tree ^^ (2 - 1)) ?t)" by (simp only: rounds) simp
  then have last: "\<not> round_applied (round_tree ?t)" by simp
  from rounds tree iter first last show ?thesis by blast
qed

section \<open>Properties of the code generator and the assembler\<close>

lemmas pass_defs = expandInArray_def expandInRange_def expandInArray_Exit_def
  expandInRange_Exit_def asBinaryIn_def asBinaryAnd_def asBinaryOr_def asUnaryNot_def no_Enter_def
  rewrite_passes_def new_queryBuilder_def not_walk.simps not_Enter.simps toDNF_def toDNF_loop.simps dnf_round_def dnf_Enter_def
  dnf_Exit_def

lemmas qb_defs = qb_walk_def qb_enter_def qb_exit_def qb_Enter_def qb_Exit_def exit_node_def
  exit_Identifier_def exit_Unary_def exit_Binary_def exit_And_def exit_Or_def exit_Compare_def
  exit_Other_def exit_Matches_def exit_Function_def exit_Conditional_def inline_connective_def
  regex_operand_def inverted_literal_def nodeName_def is_StringNode_def is_FunctionNode_def
  is_IdentifierNode_def push_def pop_def bangIf_def isWrapped_def is_letter_def
  is_printable_ascii_def strconv_Quote_def quote_byte_def

lemma criteria_highway:
  \<open>criteria_of_tree lib highway_tree = Inr [''[highway="primary"]'', ''[highway="secondary"]'']\<close>
  by (simp add: highway_tree_def criteria_of_tree_def pass_defs qb_defs)

lemma append_criteria_concat:
  "concat (append_criteria prefix crits parts) =
     concat parts @ concat (map (\<lambda>crit. prefix @ crit @ '';'') crits)"
  by (induction crits arbitrary: parts) simp_all

lemma buildQuery_Inr:
  "buildCriteria lib parse f = Inr crits \<Longrightarrow>
   buildQuery lib parse region f =
     Inr (''[out:json];('' @ concat (map (\<lambda>crit. around lib region @ crit @ '';'') crits)
          @ '');out tags geom qt;'')"
  by (simp add: buildQuery_def around_def append_criteria_concat)

lemma TrimRight_snoc_keep: "c \<notin> set cutset \<Longrightarrow> TrimRight (s @ [c]) cutset = s @ [c]"
  by (simp add: TrimRight_def)

lemma TrimRight_all: "set s \<subseteq> set cutset \<Longrightarrow> TrimRight (t @ s) cutset = TrimRight t cutset"
  by (induction s rule: rev_induct) (simp_all add: TrimRight_def flip: append_assoc)

lemma TrimRight_append_keep:
  "TrimRight s cutset \<noteq> [] \<Longrightarrow> TrimRight (t @ s) cutset = t @ TrimRight s cutset"
proof (induction s rule: rev_induct)
  case Nil
  then show ?case by (simp add: TrimRight_def)
next
  case (snoc c s)
  then show ?case
    by (cases "c \<in> set cutset") (simp_all add: TrimRight_def flip: append_assoc)
qed

lemma TrimRight_last:
  "TrimRight s cutset \<noteq> [] \<Longrightarrow>
   last (TrimRight s cutset) \<notin> set cutset \<and> last (TrimRight s cutset) \<in> set s"
proof (induction s rule: rev_induct)
  case Nil
  then show ?case by (simp add: TrimRight_def)
next
  case (snoc c s)
  then show ?case
    by (cases "c \<in> set cutset") (auto simp: TrimRight_def)
qed

lemma FormatFloat_fixed_point:
  assumes f: "strconv_FormatFloat_f5 lib x = ip @ ''.'' @ fp"
    and ip: "ip \<noteq> []" "last ip \<noteq> CHR ''.''"
    and fp: "CHR ''.'' \<notin> set fp"
  shows "FormatFloat lib x =
           (if set fp \<subseteq> {CHR ''0''} then ip else ip @ ''.'' @ TrimRight fp ''0'')"
proof (cases "set fp \<subseteq> {CHR ''0''}")
  case True
  then have "TrimRight ((ip @ ''.'') @ fp) ''0'' = TrimRight (ip @ ''.'') ''0''"
    by (intro TrimRight_all) simp
  also have "\<dots> = ip @ ''.''"
    using TrimRight_snoc_keep [of "CHR ''.''" "''0''" ip] by simp
  finally have 1: "TrimRight (ip @ ''.'' @ fp) ''0'' = ip @ ''.''" by simp
  have "TrimRight (ip @ ''.'') ''.'' = TrimRight ip ''.''"
    using TrimRight_all [of "''.''" "''.''" ip] by simp
  also have "\<dots> = ip"
    using ip TrimRight_snoc_keep [of "last ip" "''.''" "butlast ip"] by simp
  finally show ?thesis using True f 1 by (simp add: FormatFloat_def)
next
  case False
  then have ne: "TrimRight fp ''0'' \<noteq> []"
    by (induction fp rule: rev_induct) (auto simp: TrimRight_def split: if_splits)
  then have "TrimRight ((ip @ ''.'') @ fp) ''0'' = (ip @ ''.'') @ TrimRight fp ''0''"
    by (rule TrimRight_append_keep)
  then have 1: "TrimRight (ip @ ''.'' @ fp) ''0'' = ip @ ''.'' @ TrimRight fp ''0''" by simp
  from TrimRight_last [OF ne] fp have "last (TrimRight fp ''0'') \<noteq> CHR ''.''" by auto
  with ne have "TrimRight ((ip @ ''.'' @ butlast (TrimRight fp ''0'')) @ [last (TrimRight fp ''0'')])
      ''.'' = (ip @ ''.'' @ butlast (TrimRight fp ''0'')) @ [last (TrimRight fp ''0'')]"
    by (intro TrimRight_snoc_keep) simp
  with ne have "TrimRight (ip @ ''.'' @ TrimRight fp ''0'') ''.'' = ip @ ''.'' @ TrimRight fp ''0''"
    by simp
  with False f 1 show ?thesis by (simp add: FormatFloat_def)
qed

text \<open>
  Claim C1, as the code has it.  When the parser returns for the filter
  \<^verbatim>\<open>highway in ['primary','secondary']\<close> the membership test of the identifier against the
  array of the two strings, \<^verbatim>\<open>buildCriteria\<close> succeeds with exactly two criteria, in this
  order: \<^verbatim>\<open>[highway="primary"]\<close> and \<^verbatim>\<open>[highway="secondary"]\<close> (the generator writes a string
  literal with its quotes).  For every region \<^verbatim>\<open>buildQuery\<close> makes each one a statement of
  its own.
\<close>

theorem highway_filter_two_criteria:
  assumes "parse ''highway in ['primary','secondary']'' =
      Inr (BinaryNode ''in'' (IdentifierNode ''highway'')
             (ArrayNode [StringNode ''primary'', StringNode ''secondary'']))"
  shows \<open>buildCriteria lib parse ''highway in ['primary','secondary']'' =
           Inr [''[highway="primary"]'', ''[highway="secondary"]'']
         \<and> buildQuery lib parse region ''highway in ['primary','secondary']'' =
           Inr (''[out:json];('' @ around lib region @ ''[highway="primary"];''
                @ around lib region @ ''[highway="secondary"];'' @ '');out tags geom qt;'')\<close>
proof -
  have c: \<open>buildCriteria lib parse ''highway in ['primary','secondary']'' =
           Inr [''[highway="primary"]'', ''[highway="secondary"]'']\<close>
    using assms criteria_highway [of lib] by (simp add: buildCriteria_def highway_tree_def)
  show ?thesis
    using c buildQuery_Inr [OF c, of region] by simp
qed

theorem highway_filter_two_criteria_witness:
  \<open>buildCriteria example_library parse_highway ''highway in ['primary','secondary']'' =
      Inr [''[highway="primary"]'', ''[highway="secondary"]'']
   \<and> buildQuery example_library parse_highway
        \<lparr>Origin = \<lparr>Lat = 90000, Lon = 10000\<rparr>, Radius = 10000000\<rparr>
        ''highway in ['primary','secondary']'' =
      Inr (''[out:json];(way(around:100,51.56624,5.72958)[highway="primary"];''
           @ ''way(around:100,51.56624,5.72958)[highway="secondary"];);out tags geom qt;'')\<close>
proof -
  have p: "parse_highway ''highway in ['primary','secondary']'' =
      (Inr (BinaryNode ''in'' (IdentifierNode ''highway'')
             (ArrayNode [StringNode ''primary'', StringNode ''secondary''])) :: string + int node)"
    by (simp add: parse_highway_def highway_filter_def highway_tree_def)
  have a: "around example_library \<lparr>Origin = \<lparr>Lat = 90000, Lon = 10000\<rparr>, Radius = 10000000\<rparr>
      = ''way(around:100,51.56624,5.72958)''"
    by (simp add: around_def example_library_def FormatFloat_def strconv_FormatFloat_f5_def
        fraction5_def TrimRight_def
        RadiansToDegrees_def nat_digits.simps)
  show ?thesis
    using highway_filter_two_criteria [of parse_highway example_library
        "\<lparr>Origin = \<lparr>Lat = 90000, Lon = 10000\<rparr>, Radius = 10000000\<rparr>"] p
    unfolding a by simp
qed

text \<open>
  The criteria of claim C1 as the specification writes them, without the quotes, are not
  what \<^verbatim>\<open>buildCriteria\<close> returns.
\<close>

theorem highway_filter_unquoted_counterexample:
  "buildCriteria example_library parse_highway ''highway in ['primary','secondary']'' \<noteq>
      Inr [''[highway=primary]'', ''[highway=secondary]'']"
  by (simp add: buildCriteria_def parse_highway_def highway_filter_def criteria_highway)

lemma digit_is_digit: "k < 10 \<Longrightarrow> is_digit (''0123456789'' ! k)"
  unfolding is_digit_def by (rule nth_mem) simp

lemma digit_zero: "k < 10 \<Longrightarrow> (''0123456789'' ! k = CHR ''0'') = (k = 0)"
proof -
  assume "k < 10"
  then have "k = 0 \<or> k = 1 \<or> k = 2 \<or> k = 3 \<or> k = 4 \<or> k = 5 \<or> k = 6 \<or> k = 7
    \<or> k = 8 \<or> k = 9"
    by arith
  then show ?thesis by (elim disjE) simp_all
qed

lemma mod_ten_step: "(n mod (10 * m) = 0) = (n mod 10 = 0 \<and> n div 10 mod m = 0)"
  for n m :: nat
  by (auto simp: mod_mult2_eq)

lemma div_ten_steps: "n div 10 div 10 = n div 100" "n div 100 div 10 = n div 1000"
    "n div 1000 div 10 = n div 10000" for n :: nat
proof -
  have "n div 10 div 10 = n div (10 * 10)" by (rule div_mult2_eq [symmetric])
  then show "n div 10 div 10 = n div 100" by simp
  have "n div 100 div 10 = n div (100 * 10)" by (rule div_mult2_eq [symmetric])
  then show "n div 100 div 10 = n div 1000" by simp
  have "n div 1000 div 10 = n div (1000 * 10)" by (rule div_mult2_eq [symmetric])
  then show "n div 1000 div 10 = n div 10000" by simp
qed

lemma mod_100000_step: "(n mod 100000 = 0) = (n mod 10 = 0 \<and> n div 10 mod 10000 = 0)" for n :: nat
proof -
  have "(100000 :: nat) = 10 * 10000" by simp
  then show ?thesis by (simp only: mod_ten_step)
qed

lemma mod_10000_step: "(n mod 10000 = 0) = (n mod 10 = 0 \<and> n div 10 mod 1000 = 0)" for n :: nat
proof -
  have "(10000 :: nat) = 10 * 1000" by simp
  then show ?thesis by (simp only: mod_ten_step)
qed

lemma mod_1000_step: "(n mod 1000 = 0) = (n mod 10 = 0 \<and> n div 10 mod 100 = 0)" for n :: nat
proof -
  have "(1000 :: nat) = 10 * 100" by simp
  then show ?thesis by (simp only: mod_ten_step)
qed

lemma mod_100_step: "(n mod 100 = 0) = (n mod 10 = 0 \<and> n div 10 mod 10 = 0)" for n :: nat
proof -
  have "(100 :: nat) = 10 * 10" by simp
  then show ?thesis by (simp only: mod_ten_step)
qed

lemma mod_100000_digits:
  "(n mod 100000 = 0) =
     (n div 10000 mod 10 = 0 \<and> n div 1000 mod 10 = 0 \<and> n div 100 mod 10 = 0
      \<and> n div 10 mod 10 = 0 \<and> n mod 10 = 0)"
  for n :: nat
  unfolding mod_100000_step [of n] mod_10000_step [of "n div 10"] div_ten_steps
    mod_1000_step [of "n div 100"] mod_100_step [of "n div 1000"]
  by blast

lemma nat_digits_digits: "list_all is_digit (nat_digits n)"
proof (induction n rule: nat_digits.induct)
  case (1 n)
  show ?case
  proof (cases "n < 10")
    case True
    then show ?thesis by (subst nat_digits.simps) (simp add: digit_is_digit)
  next
    case False
    with 1 show ?thesis by (subst nat_digits.simps) (simp add: digit_is_digit)
  qed
qed

lemma nat_digits_nonempty: "nat_digits n \<noteq> []"
  by (subst nat_digits.simps) simp

lemma fraction5_digits: "list_all is_digit (fraction5 n)"
  by (simp add: fraction5_def digit_is_digit)

lemma fraction5_zero: "(set (fraction5 n) \<subseteq> {CHR ''0''}) = (n mod 100000 = 0)"
proof -
  have "n div 10000 mod 10 < 10" "n div 1000 mod 10 < 10" "n div 100 mod 10 < 10"
    "n div 10 mod 10 < 10" "n mod 10 < 10"
    by simp_all
  then show ?thesis
    unfolding mod_100000_digits by (simp add: fraction5_def digit_zero)
qed

lemma point_no_digit: "\<not> is_digit CHR ''.''" "\<not> is_digit CHR ''-''"
  by (simp_all add: is_digit_def)

lemma plain_decimal_parts:
  assumes "ds \<noteq> []" "list_all is_digit ds"
    and "fs \<noteq> [] \<Longrightarrow> list_all is_digit fs \<and> last fs \<noteq> CHR ''0''"
  shows "plain_decimal ((if neg then ''-'' else []) @ ds @ (if fs = [] then [] else ''.'' @ fs))"
proof -
  let ?rest = "if fs = [] then [] else ''.'' @ fs"
  obtain d ds' where ds: "ds = d # ds'" using assms(1) by (cases ds) auto
  with assms(2) have "d \<noteq> CHR ''-''" using point_no_digit(2) by auto
  then have t: "(case (if neg then ''-'' else []) @ ds @ ?rest of [] \<Rightarrow> []
      | c # r \<Rightarrow> if c = CHR ''-'' then r else (if neg then ''-'' else []) @ ds @ ?rest) =
      ds @ ?rest"
    by (simp add: ds)
  have all: "\<And>x. x \<in> set ds \<Longrightarrow> is_digit x" using assms(2) by (simp add: list_all_iff)
  have "takeWhile is_digit (ds @ ?rest) = ds @ takeWhile is_digit ?rest"
    using all by (rule takeWhile_append2)
  then have tw: "takeWhile is_digit (ds @ ?rest) = ds"
    using point_no_digit(1) by simp
  have "dropWhile is_digit (ds @ ?rest) = dropWhile is_digit ?rest"
    using all by (rule dropWhile_append2)
  then have dw: "dropWhile is_digit (ds @ ?rest) = ?rest"
    using point_no_digit(1) by simp
  show ?thesis
    unfolding plain_decimal_def t Let_def tw dw
    using assms(1,3) by simp
qed

lemma TrimRight_not_Nil: "\<not> set s \<subseteq> set cutset \<Longrightarrow> TrimRight s cutset \<noteq> []"
  by (induction s rule: rev_induct) (auto simp: TrimRight_def split: if_splits)

lemma TrimRight_subset: "set (TrimRight s cutset) \<subseteq> set s"
  by (auto simp: TrimRight_def dest: set_dropWhileD)

lemma FormatFloat_finite:
  assumes "float_class lib x = IsFinite"
  shows "FormatFloat lib x =
     (if float_signbit lib x then ''-'' else []) @ nat_digits (float_round5 lib x div 100000)
     @ (if float_round5 lib x mod 100000 = 0 then []
        else ''.'' @ TrimRight (fraction5 (float_round5 lib x)) ''0'')"
proof -
  let ?ip = "(if float_signbit lib x then ''-'' else []) @ nat_digits (float_round5 lib x div 100000)"
  let ?fp = "fraction5 (float_round5 lib x)"
  have f: "strconv_FormatFloat_f5 lib x = ?ip @ ''.'' @ ?fp"
    using assms by (simp add: strconv_FormatFloat_f5_def)
  have ne: "?ip \<noteq> []" by (simp add: nat_digits_nonempty)
  have "last ?ip = last (nat_digits (float_round5 lib x div 100000))"
    by (simp add: nat_digits_nonempty)
  moreover have "is_digit (last (nat_digits (float_round5 lib x div 100000)))"
    using nat_digits_digits [of "float_round5 lib x div 100000"]
      last_in_set [OF nat_digits_nonempty [of "float_round5 lib x div 100000"]]
    by (simp add: list_all_iff)
  ultimately have l: "last ?ip \<noteq> CHR ''.''" using point_no_digit(1) by metis
  have p: "CHR ''.'' \<notin> set ?fp"
    using fraction5_digits [of "float_round5 lib x"] point_no_digit(1)
    by (auto simp: list_all_iff)
  show ?thesis
    using FormatFloat_fixed_point [OF f ne l p] fraction5_zero [of "float_round5 lib x"]
    by simp
qed

lemma FormatFloat_plain_decimal:
  assumes "float_class lib x = IsFinite"
  shows "plain_decimal (FormatFloat lib x)"
proof -
  let ?n = "float_round5 lib x"
  let ?fs = "if ?n mod 100000 = 0 then [] else TrimRight (fraction5 ?n) ''0''"
  have fs: "list_all is_digit ?fs \<and> last ?fs \<noteq> CHR ''0''" if "?fs \<noteq> []"
  proof -
    from that have nz: "?n mod 100000 \<noteq> 0" and ne: "TrimRight (fraction5 ?n) ''0'' \<noteq> []"
      by (auto split: if_splits)
    have "list_all is_digit (TrimRight (fraction5 ?n) ''0'')"
      using fraction5_digits [of ?n] TrimRight_subset [of "fraction5 ?n" "''0''"]
      by (auto simp: list_all_iff)
    moreover have "last (TrimRight (fraction5 ?n) ''0'') \<noteq> CHR ''0''"
      using TrimRight_last [OF ne] by simp
    ultimately show ?thesis using nz by simp
  qed
  have z: "?n mod 100000 \<noteq> 0 \<Longrightarrow> TrimRight (fraction5 ?n) ''0'' \<noteq> []"
    using fraction5_zero [of ?n] TrimRight_not_Nil [of "fraction5 ?n" "''0''"] by simp
  have "FormatFloat lib x =
      (if float_signbit lib x then ''-'' else []) @ nat_digits (?n div 100000)
      @ (if ?fs = [] then [] else ''.'' @ ?fs)"
    using FormatFloat_finite [OF assms] z by simp
  moreover have "plain_decimal ((if float_signbit lib x then ''-'' else [])
      @ nat_digits (?n div 100000) @ (if ?fs = [] then [] else ''.'' @ ?fs))"
    using fs by (intro plain_decimal_parts nat_digits_nonempty nat_digits_digits) simp_all
  ultimately show ?thesis by simp
qed

text \<open>
  Claim C2, as the code has it.  When \<^verbatim>\<open>buildCriteria\<close> returns criteria, \<^verbatim>\<open>buildQuery\<close>
  returns the preamble \<^verbatim>\<open>[out:json];(\<close>, then for each criterion in order the clause
  \<^verbatim>\<open>way(around:radius,lat,lon)\<close>, the criterion and \<^verbatim>\<open>;\<close>, then the epilogue
  \<^verbatim>\<open>);out tags geom qt;\<close>.  The radius and the coordinates in degrees are written by
  \<^verbatim>\<open>FormatFloat\<close>.  For a finite number the result is a plain decimal number with no
  trailing zero: a minus sign if the sign bit is set, the digits of the integer part of
  the number rounded to five decimals and, unless all five decimals are zero, a point and
  the decimals up to the last one that is not zero.
\<close>

theorem buildQuery_wire_format:
  "(buildCriteria lib parse f = Inr crits \<longrightarrow>
      buildQuery lib parse region f =
        Inr (''[out:json];(''
             @ concat (map (\<lambda>crit.
                 ''way(around:'' @ FormatFloat lib (Radius region) @ '',''
                 @ FormatFloat lib (RadiansToDegrees lib (Lat (Origin region))) @ '',''
                 @ FormatFloat lib (RadiansToDegrees lib (Lon (Origin region))) @ '')''
                 @ crit @ '';'') crits)
             @ '');out tags geom qt;''))
   \<and> (float_class lib x = IsFinite \<longrightarrow>
      FormatFloat lib x =
        (if float_signbit lib x then ''-'' else []) @ nat_digits (float_round5 lib x div 100000)
        @ (if float_round5 lib x mod 100000 = 0 then []
           else ''.'' @ TrimRight (fraction5 (float_round5 lib x)) ''0'')
      \<and> plain_decimal (FormatFloat lib x))"
proof -
  have 1: "buildCriteria lib parse f = Inr crits \<longrightarrow>
      buildQuery lib parse region f =
        Inr (''[out:json];(''
             @ concat (map (\<lambda>crit.
                 ''way(around:'' @ FormatFloat lib (Radius region) @ '',''
                 @ FormatFloat lib (RadiansToDegrees lib (Lat (Origin region))) @ '',''
                 @ FormatFloat lib (RadiansToDegrees lib (Lon (Origin region))) @ '')''
                 @ crit @ '';'') crits)
             @ '');out tags geom qt;'')"
    using buildQuery_Inr [of lib parse f crits region] by (simp add: around_def)
  have 2: "float_class lib x = IsFinite \<longrightarrow>
      FormatFloat lib x =
        (if float_signbit lib x then ''-'' else []) @ nat_digits (float_round5 lib x div 100000)
        @ (if float_round5 lib x mod 100000 = 0 then []
           else ''.'' @ TrimRight (fraction5 (float_round5 lib x)) ''0'')
      \<and> plain_decimal (FormatFloat lib x)"
    using FormatFloat_finite [of lib x] FormatFloat_plain_decimal [of lib x] by blast
  show ?thesis by (intro conjI 1 2)
qed

theorem buildQuery_wire_format_witness:
  \<open>buildQuery example_library parse_highway
        \<lparr>Origin = \<lparr>Lat = 90000, Lon = 10000\<rparr>, Radius = 10000000\<rparr> highway_filter =
      Inr (''[out:json];(way(around:100,51.56624,5.72958)[highway="primary"];''
           @ ''way(around:100,51.56624,5.72958)[highway="secondary"];);out tags geom qt;'')
   \<and> FormatFloat example_library 10000000 = ''100''
   \<and> FormatFloat example_library 1250000 = ''12.5''
   \<and> FormatFloat example_library (- 3781360) = ''-37.8136''
   \<and> plain_decimal ''100'' \<and> plain_decimal ''12.5'' \<and> plain_decimal ''-37.8136''\<close>
proof -
  let ?region = "\<lparr>Origin = \<lparr>Lat = 90000, Lon = 10000\<rparr>, Radius = 10000000 :: int\<rparr>"
  note spec = buildQuery_wire_format [of example_library parse_highway highway_filter _ ?region]
  have c: \<open>buildCriteria example_library parse_highway highway_filter =
      Inr [''[highway="primary"]'', ''[highway="secondary"]'']\<close>
    by (simp add: buildCriteria_def parse_highway_def criteria_highway)
  have r: "FormatFloat example_library (Radius ?region) = ''100''"
    "FormatFloat example_library (RadiansToDegrees example_library (Lat (Origin ?region))) =
       ''51.56624''"
    "FormatFloat example_library (RadiansToDegrees example_library (Lon (Origin ?region))) =
       ''5.72958''"
    by (simp_all add: example_library_def FormatFloat_def strconv_FormatFloat_f5_def
        fraction5_def TrimRight_def RadiansToDegrees_def nat_digits.simps)
  from spec [of "[''[highway='' @ [CHR 0x22] @ ''primary'' @ [CHR 0x22] @ '']'',
        ''[highway='' @ [CHR 0x22] @ ''secondary'' @ [CHR 0x22] @ '']'']" 0] c
  have q: \<open>buildQuery example_library parse_highway ?region highway_filter =
      Inr (''[out:json];(way(around:100,51.56624,5.72958)[highway="primary"];''
           @ ''way(around:100,51.56624,5.72958)[highway="secondary"];);out tags geom qt;'')\<close>
    unfolding r by simp
  have fin: "float_class example_library i = IsFinite" for i
    by (simp add: example_library_def)
  have ev: "float_signbit example_library i = (i < 0)"
    "float_round5 example_library i = nat \<bar>i\<bar>" for i
    by (simp_all add: example_library_def)
  from spec [of "[]" 10000000] fin [of 10000000]
  have "FormatFloat example_library 10000000 =
      (if float_signbit example_library 10000000 then ''-'' else [])
      @ nat_digits (float_round5 example_library 10000000 div 100000)
      @ (if float_round5 example_library 10000000 mod 100000 = 0 then []
         else ''.'' @ TrimRight (fraction5 (float_round5 example_library 10000000)) ''0'')"
    and pa: "plain_decimal (FormatFloat example_library 10000000)"
    by blast+
  then have a: "FormatFloat example_library 10000000 = ''100''"
    by (simp add: ev nat_digits.simps)
  from spec [of "[]" 1250000] fin [of 1250000]
  have "FormatFloat example_library 1250000 =
      (if float_signbit example_library 1250000 then ''-'' else [])
      @ nat_digits (float_round5 example_library 1250000 div 100000)
      @ (if float_round5 example_library 1250000 mod 100000 = 0 then []
         else ''.'' @ TrimRight (fraction5 (float_round5 example_library 1250000)) ''0'')"
    and pb: "plain_decimal (FormatFloat example_library 1250000)"
    by blast+
  then have b: "FormatFloat example_library 1250000 = ''12.5''"
    by (simp add: ev nat_digits.simps fraction5_def TrimRight_def)
  from spec [of "[]" "- 3781360"] fin [of "- 3781360"]
  have "FormatFloat example_library (- 3781360) =
      (if float_signbit example_library (- 3781360) then ''-'' else [])
      @ nat_digits (float_round5 example_library (- 3781360) div 100000)
      @ (if float_round5 example_library (- 3781360) mod 100000 = 0 then []
         else ''.'' @ TrimRight (fraction5 (float_round5 example_library (- 3781360))) ''0'')"
    and pm: "plain_decimal (FormatFloat example_library (- 3781360))"
    by blast+
  then have m: "FormatFloat example_library (- 3781360) = ''-37.8136''"
    by (simp add: ev nat_digits.simps fraction5_def TrimRight_def)
  from q a b m pa pb pm show ?thesis by simp
qed

lemma FormatFloat_not_finite:
  "float_class lib x \<noteq> IsFinite \<Longrightarrow>
   FormatFloat lib x = (case float_class lib x of IsNaN \<Rightarrow> ''NaN'' | IsPosInf \<Rightarrow> ''+Inf''
     | IsNegInf \<Rightarrow> ''-Inf'' | IsFinite \<Rightarrow> [])
   \<and> \<not> plain_decimal (FormatFloat lib x)"
  by (cases "float_class lib x")
     (simp_all add: FormatFloat_def strconv_FormatFloat_f5_def TrimRight_def plain_decimal_def
        is_digit_def)

text \<open>
  The numbers of claim C2 are not plain decimal numbers for every region.  A coordinate
  that is a NaN is still a NaN in degrees, \<^verbatim>\<open>strconv.FormatFloat\<close> writes it as \<^verbatim>\<open>NaN\<close>,
  where there is no zero and no point to trim, and the clause of the query is
  \<^verbatim>\<open>way(around:111.11111,NaN,NaN)\<close>.
\<close>

theorem buildQuery_NaN_counterexample:
  \<open>buildQuery example_library_nan parse_highway
        \<lparr>Origin = \<lparr>Lat = None, Lon = None\<rparr>, Radius = Some 11111111\<rparr> highway_filter =
      Inr (''[out:json];(way(around:111.11111,NaN,NaN)[highway="primary"];''
           @ ''way(around:111.11111,NaN,NaN)[highway="secondary"];);out tags geom qt;'')
   \<and> FormatFloat example_library_nan (RadiansToDegrees example_library_nan None) = ''NaN''
   \<and> \<not> plain_decimal (FormatFloat example_library_nan (RadiansToDegrees example_library_nan None))\<close>
proof -
  let ?region = "\<lparr>Origin = \<lparr>Lat = None, Lon = None\<rparr>, Radius = Some (11111111 :: int)\<rparr>"
  have c: \<open>buildCriteria example_library_nan parse_highway highway_filter =
      Inr [''[highway="primary"]'', ''[highway="secondary"]'']\<close>
    by (simp add: buildCriteria_def parse_highway_def criteria_highway)
  have r: "FormatFloat example_library_nan (Radius ?region) = ''111.11111''"
    "FormatFloat example_library_nan (RadiansToDegrees example_library_nan None) = ''NaN''"
    by (simp_all add: example_library_nan_def FormatFloat_def strconv_FormatFloat_f5_def
        fraction5_def TrimRight_def RadiansToDegrees_def nat_digits.simps)
  have q: \<open>buildQuery example_library_nan parse_highway ?region highway_filter =
      Inr (''[out:json];(way(around:111.11111,NaN,NaN)[highway="primary"];''
           @ ''way(around:111.11111,NaN,NaN)[highway="secondary"];);out tags geom qt;'')\<close>
    using buildQuery_Inr [OF c, of ?region] r by (simp add: around_def)
  have "\<not> plain_decimal ''NaN''"
    by (simp add: plain_decimal_def is_digit_def)
  with q r show ?thesis by simp
qed

text \<open>
  Claim C8.  At root a call of \<^verbatim>\<open>is_tag\<close> with one argument gives the presence filter, and
  \<^verbatim>\<open>is_tag(highway)\<close> compiles to \<^verbatim>\<open>[highway]\<close>.  Any other call pops one fragment per
  argument and appends them in the order of the pops, which is the reverse of the order
  of the arguments: with the fragments \<open>x\<close> and \<open>y\<close> of two arguments on the stack the
  call is written \<^verbatim>\<open>name(yx)\<close>, and \<^verbatim>\<open>f(a, b)\<close> compiles to \<^verbatim>\<open>(if:f(ba))\<close>.
\<close>

theorem function_call_arguments_reversed:
  "exit_Function name [a1, a2] root neg (q\<lparr>stack := S @ [x, y]\<rparr>) =
     Some (q\<lparr>stack := S @ [bangIf name neg @ ''('' @ y @ x @ '')'']\<rparr>)
   \<and> exit_Function ''is_tag'' [a1] True neg (q\<lparr>stack := S @ [x]\<rparr>) =
     Some (q\<lparr>stack := S @ [''['' @ bangIf x neg @ '']'']\<rparr>)
   \<and> criteria_of_tree lib (FunctionNode ''f'' [IdentifierNode ''a'', IdentifierNode ''b''])
     = Inr [''(if:f(ba))'']
   \<and> criteria_of_tree lib (FunctionNode ''is_tag'' [IdentifierNode ''highway''])
     = Inr [''[highway]'']"
  by (simp add: criteria_of_tree_def pass_defs qb_defs butlast_append)

subsection \<open>The walk of the generator is total\<close>

lemma good_pop:
  assumes "good (Suc b) q"
  obtains x q1 where "pop q = Some (x, q1)" "x \<noteq> []" "good b q1"
proof -
  from assms have ne: "stack q \<noteq> []" by (auto simp: good_def)
  then have "stack q = butlast (stack q) @ [last (stack q)]" by simp
  moreover from assms have "list_all (\<lambda>x. x \<noteq> []) (stack q)"
    by (simp add: good_def stack_ok_def)
  ultimately have "list_all (\<lambda>x. x \<noteq> []) (butlast (stack q) @ [last (stack q)])"
    by simp
  then have "last (stack q) \<noteq> []" "list_all (\<lambda>x. x \<noteq> []) (butlast (stack q))"
    by simp_all
  with assms ne show ?thesis
    by (intro that [of "last (stack q)" "q\<lparr>stack := butlast (stack q)\<rparr>"])
       (auto simp: pop_def good_def stack_ok_def)
qed

lemma good_push: "good b q \<Longrightarrow> concat a \<noteq> [] \<Longrightarrow> good (Suc b) (push a q)"
  by (auto simp: good_def stack_ok_def push_def)

lemma good_mono: "good b q \<Longrightarrow> c \<le> b \<Longrightarrow> good c q"
  by (auto simp: good_def)

lemma isWrapped_Some: "x \<noteq> [] \<Longrightarrow> \<exists>w. isWrapped x = Some w"
  by (cases x) (auto simp: isWrapped_def)

lemma Sprint_int_nonempty: "Sprint_int i \<noteq> []"
  by (simp add: Sprint_int_def nat_digits_nonempty)

lemma strconv_Quote_nonempty: "strconv_Quote lib s \<noteq> []"
  by (simp add: strconv_Quote_def)

lemma exit_Identifier_good:
  "v \<noteq> [] \<Longrightarrow> good b q \<Longrightarrow> good (Suc b) (exit_Identifier lib v root neg q)"
  by (auto simp: exit_Identifier_def Let_def bangIf_def strconv_Quote_nonempty intro!: good_push)

lemma exit_Unary_good:
  assumes "good (Suc b) q"
  shows "\<exists>q'. exit_Unary op root neg q = Some q' \<and> good (Suc b) q'"
proof (cases "\<not> root \<or> (op \<noteq> ''not'' \<and> op \<noteq> ''!'')")
  case True
  from assms obtain x q1 where "pop q = Some (x, q1)" "good b q1" by (rule good_pop)
  with True show ?thesis
    by (auto simp: exit_Unary_def intro!: good_push)
next
  case False
  with assms show ?thesis by (auto simp: exit_Unary_def)
qed

lemma inline_connective_Some:
  "lhs \<noteq> [] \<Longrightarrow> rhs \<noteq> [] \<Longrightarrow> \<exists>w. inline_connective root lhs rhs = Some w"
  using isWrapped_Some [of lhs] isWrapped_Some [of rhs]
  by (auto simp: inline_connective_def)

lemma exit_And_good:
  assumes "good b q" "lhs \<noteq> []" "rhs \<noteq> []"
  shows "\<exists>q'. exit_And root lhs rhs q = Some q' \<and> good (Suc b) q'"
  using assms inline_connective_Some [of lhs rhs root] isWrapped_Some [of lhs]
    isWrapped_Some [of rhs]
  by (auto simp: exit_And_def intro!: good_push)

lemma exit_Or_good:
  assumes "good b q" "lhs \<noteq> []" "rhs \<noteq> []"
  shows "\<exists>q'. exit_Or root lhs rhs q = Some q' \<and> good (Suc b) q'"
proof -
  from assms have "good (Suc b) (push [lhs] q)" by (auto intro!: good_push)
  with assms have "good (Suc (Suc b)) (push [rhs] (push [lhs] q))" by (auto intro!: good_push)
  then have "good (Suc b) (push [rhs] (push [lhs] q))" by (rule good_mono) simp
  with assms inline_connective_Some [of lhs rhs root] show ?thesis
    by (auto simp: exit_Or_def intro!: good_push)
qed

lemma exit_Compare_good:
  assumes "good b q" "lhs \<noteq> []"
  shows "\<exists>q'. exit_Compare lib op left lhs rhs q = Some q' \<and> good (Suc b) q'"
  using assms
  by (cases lhs; cases left) (auto simp: exit_Compare_def Let_def intro!: good_push)

lemma regex_operand_Some:
  "rhs \<noteq> [] \<Longrightarrow> \<exists>op' rhs'. regex_operand op right rhs = Some (op', rhs')"
  by (cases rhs) (auto simp: regex_operand_def)

lemma exit_Other_good:
  assumes "good b q" "lhs \<noteq> []" "rhs \<noteq> []"
  shows "\<exists>q'. exit_Other op left right root neg lhs rhs q = Some q' \<and> good (Suc b) q'"
proof -
  from assms(3) obtain op' rhs' where "regex_operand op right rhs = Some (op', rhs')"
    using regex_operand_Some by blast
  with assms(1,2) show ?thesis
    by (auto simp: exit_Other_def Let_def split: prod.splits intro!: good_push)
qed

lemma exit_Binary_good:
  assumes "good (Suc (Suc b)) q"
  shows "\<exists>q'. exit_Binary lib op left right root neg q = Some q' \<and> good (Suc b) q'"
proof -
  from assms obtain rhs q1 where 1: "pop q = Some (rhs, q1)" "rhs \<noteq> []" "good (Suc b) q1"
    by (rule good_pop)
  from 1(3) obtain lhs q2 where 2: "pop q1 = Some (lhs, q2)" "lhs \<noteq> []" "good b q2"
    by (rule good_pop)
  show ?thesis
    using 1 2 exit_And_good [of b q2 lhs rhs root] exit_Or_good [of b q2 lhs rhs root]
      exit_Compare_good [of b q2 lhs lib op left rhs]
      exit_Other_good [of b q2 lhs rhs op left right root neg]
    by (simp add: exit_Binary_def)
qed

lemma exit_Matches_good:
  assumes "good (Suc (Suc b)) q"
  shows "\<exists>q'. exit_Matches root neg q = Some q' \<and> good (Suc b) q'"
proof -
  from assms obtain rhs q1 where 1: "pop q = Some (rhs, q1)" "rhs \<noteq> []" "good (Suc b) q1"
    by (rule good_pop)
  from 1(3) obtain lhs q2 where 2: "pop q1 = Some (lhs, q2)" "lhs \<noteq> []" "good b q2"
    by (rule good_pop)
  show ?thesis
    using 1 2 by (auto simp: exit_Matches_def intro!: good_push)
qed

lemma exit_Conditional_good:
  assumes "good (Suc (Suc (Suc b))) q"
  shows "\<exists>q'. exit_Conditional q = Some q' \<and> good (Suc b) q'"
proof -
  from assms obtain e2 q1 where 1: "pop q = Some (e2, q1)" "good (Suc (Suc b)) q1"
    by (rule good_pop)
  from 1(2) obtain e1 q2 where 2: "pop q1 = Some (e1, q2)" "good (Suc b) q2"
    by (rule good_pop)
  from 2(2) obtain c q3 where 3: "pop q2 = Some (c, q3)" "good b q3"
    by (rule good_pop)
  show ?thesis
    using 1 2 3 by (auto simp: exit_Conditional_def intro!: good_push)
qed

lemma pop_arguments_good:
  "good (b + length args) q \<Longrightarrow>
   \<exists>parts' q'. pop_arguments args parts q = Some (parts @ parts', q') \<and> good b q'"
proof (induction args arbitrary: parts q)
  case Nil
  then show ?case by simp
next
  case (Cons a as)
  from Cons.prems have "good (Suc (b + length as)) q" by simp
  then obtain x q1 where 1: "pop q = Some (x, q1)" "good (b + length as) q1"
    by (rule good_pop)
  from Cons.IH [OF 1(2), of "parts @ [x]"] 1(1) show ?case by auto
qed

lemma exit_Function_good:
  assumes "good (b + length args) q"
  shows "\<exists>q'. exit_Function name args root neg q = Some q' \<and> good (Suc b) q'"
proof (cases "root \<and> name = ''is_tag'' \<and> length args = 1")
  case True
  with assms have "good (Suc b) q" by simp
  then obtain x q1 where "pop q = Some (x, q1)" "good b q1" by (rule good_pop)
  with True show ?thesis by (auto simp: exit_Function_def intro!: good_push)
next
  case False
  from pop_arguments_good [OF assms, of "[bangIf name neg, ''('']"]
  obtain parts' q1 where
    "pop_arguments args [bangIf name neg, ''(''] q = Some ([bangIf name neg, ''(''] @ parts', q1)"
    "good b q1" by blast
  with False show ?thesis by (auto simp: exit_Function_def intro!: good_push)
qed

lemma wf_identifiers_top: "wf_identifiers n \<Longrightarrow> wf_top n"
  by (cases n) (simp_all add: wf_top_def)

lemma exit_node_good:
  assumes "sprint_ok lib" "wf_top n" "good (b + arity n) q"
  shows "\<exists>q'. exit_node lib n root neg q = Some q' \<and> stack_ok q'
           \<and> (err q' = None \<longrightarrow> Suc b \<le> length (stack q'))"
proof -
  have *: "\<exists>q'. r = Some q' \<and> stack_ok q' \<and> (err q' = None \<longrightarrow> Suc b \<le> length (stack q'))"
    if "\<exists>q'. r = Some q' \<and> good (Suc b) q'" for r
    using that by (auto simp: good_def)
  show ?thesis
  proof (cases n)
    case NilNode
    with assms show ?thesis by (simp add: exit_node_def good_def stack_ok_def)
  next
    case (IdentifierNode v)
    with assms show ?thesis
      using exit_Identifier_good [of v b q lib root neg]
      by (intro *) (simp add: exit_node_def wf_top_def)
  next
    case (IntegerNode v)
    with assms show ?thesis
      by (intro *) (simp add: exit_node_def good_push Sprint_int_nonempty)
  next
    case (FloatNode v)
    with assms show ?thesis
      by (intro *) (simp add: exit_node_def good_push sprint_ok_def)
  next
    case (BoolNode v)
    with assms show ?thesis
      by (intro *) (simp add: exit_node_def good_push)
  next
    case (StringNode v)
    with assms show ?thesis
      by (intro *) (simp add: exit_node_def good_push strconv_Quote_nonempty)
  next
    case (UnaryNode op x)
    with assms show ?thesis
      using exit_Unary_good [of b q op root neg]
      by (intro *) (simp add: exit_node_def)
  next
    case (BinaryNode op l r)
    with assms show ?thesis
      using exit_Binary_good [of b q lib op l r root neg]
      by (intro *) (simp add: exit_node_def)
  next
    case (MatchesNode l r)
    with assms show ?thesis
      using exit_Matches_good [of b q root neg]
      by (intro *) (simp add: exit_node_def)
  next
    case (FunctionNode name args)
    with assms show ?thesis
      using exit_Function_good [of b args q name root neg]
      by (intro *) (simp add: exit_node_def)
  next
    case (ConditionalNode c e1 e2)
    with assms show ?thesis
      using exit_Conditional_good [of b q]
      by (intro *) (simp add: exit_node_def eval_nat_numeral)
  next
    case (ArrayNode ns)
    with assms show ?thesis by (simp add: exit_node_def good_def stack_ok_def)
  qed
qed

lemma qb_Exit_progress:
  assumes "sprint_ok lib" "wf_top n" "progress (b + arity n) s"
  shows "progress (Suc b) (Option.bind s (qb_Exit lib n))"
proof -
  from assms(3) obtain q where s: "s = Some q" and ok: "stack_ok q"
    and len: "err q = None \<longrightarrow> b + arity n \<le> length (stack q)"
    by (auto simp: progress_def split: option.splits)
  show ?thesis
  proof (cases "err q")
    case (Some e)
    with s ok show ?thesis by (simp add: qb_Exit_def progress_def)
  next
    case None
    define q1 where "q1 = (if depth q > 0 then q\<lparr>depth := depth q - 1\<rparr> else q)"
    define root where "root = (depth q1 = 0)"
    define pending where "pending = (root \<and> length (queryBuilder.not q1) > 0)"
    define neg where "neg = (if pending then last (queryBuilder.not q1) else False)"
    define q2 where "q2 = (if pending then q1\<lparr>not := butlast (queryBuilder.not q1)\<rparr> else q1)"
    have q2: "stack q2 = stack q" "err q2 = None"
      using None by (simp_all add: q2_def q1_def)
    with ok len None have g: "good (b + arity n) q2"
      by (simp add: good_def stack_ok_def)
    have unfold: "qb_Exit lib n q =
        (if neg \<and> inverted_literal n
         then Some (q2\<lparr>err := Some (''inverted '' @ nodeName n @ '' not supported'')\<rparr>)
         else exit_node lib n root neg q2)"
      using None by (simp add: qb_Exit_def Let_def q1_def root_def pending_def neg_def q2_def)
    show ?thesis
    proof (cases "neg \<and> inverted_literal n")
      case True
      with unfold s g show ?thesis
        by (simp add: progress_def good_def stack_ok_def)
    next
      case False
      with unfold s exit_node_good [OF assms(1,2) g, of root neg] show ?thesis
        by (auto simp: progress_def)
    qed
  qed
qed

lemma qb_enter_progress: "progress b s \<Longrightarrow> progress b (qb_enter n s)"
  by (cases s) (auto simp: progress_def qb_enter_def qb_Enter_def Let_def stack_ok_def)

lemma qb_walk_nodes_fst:
  "(\<And>x s. x \<in> set ns \<Longrightarrow> fst (walk qb_enter (qb_exit lib) x s) = x) \<Longrightarrow>
   fst (walk_nodes qb_enter (qb_exit lib) ns s) = ns"
  by (induction ns arbitrary: s) (simp_all add: case_prod_beta)

lemma qb_exit_fst: "fst (qb_exit lib n s) = n"
  by (simp add: qb_exit_def)

lemma qb_walk_fst: "fst (walk qb_enter (qb_exit lib) n s) = n"
proof (induction n arbitrary: s)
  case (FunctionNode name args)
  then show ?case
    using qb_walk_nodes_fst [of args lib]
    by (simp add: qb_exit_fst case_prod_beta)
next
  case (ArrayNode ns)
  then show ?case
    using qb_walk_nodes_fst [of ns lib]
    by (simp add: qb_exit_fst case_prod_beta)
qed (simp_all add: qb_exit_fst case_prod_beta)

lemma qb_walk_nodes_fst': "fst (walk_nodes qb_enter (qb_exit lib) ns s) = ns"
  by (rule qb_walk_nodes_fst) (rule qb_walk_fst)

lemma walk_as_run: "walk qb_enter (qb_exit lib) n s = (n, run lib n s)"
  using qb_walk_fst [of lib n s] by (simp add: run_def prod_eq_iff)

lemma walk_nodes_as_run: "walk_nodes qb_enter (qb_exit lib) ns s = (ns, run_nodes lib ns s)"
  using qb_walk_nodes_fst' [of lib ns s] by (simp add: run_nodes_def prod_eq_iff)

lemma run_simps:
  fixes lib :: "'f go_library"
  shows
  "run lib (UnaryNode op x) s =
     Option.bind (run lib x (qb_enter (UnaryNode op x) s)) (qb_Exit lib (UnaryNode op x))"
  "run lib (BinaryNode op l r) s =
     Option.bind (run lib r (run lib l (qb_enter (BinaryNode op l r) s)))
       (qb_Exit lib (BinaryNode op l r))"
  "run lib (MatchesNode l r) s =
     Option.bind (run lib r (run lib l (qb_enter (MatchesNode l r) s)))
       (qb_Exit lib (MatchesNode l r))"
  "run lib (FunctionNode name args) s =
     Option.bind (run_nodes lib args (qb_enter (FunctionNode name args) s))
       (qb_Exit lib (FunctionNode name args))"
  "run lib (ConditionalNode c e1 e2) s =
     Option.bind (run lib e2 (run lib e1 (run lib c (qb_enter (ConditionalNode c e1 e2) s))))
       (qb_Exit lib (ConditionalNode c e1 e2))"
  "run lib (ArrayNode ns) s =
     Option.bind (run_nodes lib ns (qb_enter (ArrayNode ns) s)) (qb_Exit lib (ArrayNode ns))"
  "run lib NilNode s = Option.bind (qb_enter (NilNode :: 'f node) s) (qb_Exit lib NilNode)"
  "run lib (IdentifierNode v) s =
     Option.bind (qb_enter (IdentifierNode v :: 'f node) s) (qb_Exit lib (IdentifierNode v))"
  "run lib (IntegerNode i) s =
     Option.bind (qb_enter (IntegerNode i :: 'f node) s) (qb_Exit lib (IntegerNode i))"
  "run lib (FloatNode f) s =
     Option.bind (qb_enter (FloatNode f) s) (qb_Exit lib (FloatNode f))"
  "run lib (BoolNode b) s =
     Option.bind (qb_enter (BoolNode b :: 'f node) s) (qb_Exit lib (BoolNode b))"
  "run lib (StringNode v) s =
     Option.bind (qb_enter (StringNode v :: 'f node) s) (qb_Exit lib (StringNode v))"
  by (simp_all add: run_def [of lib "UnaryNode op x"] run_def [of lib "BinaryNode op l r"]
      run_def [of lib "MatchesNode l r"] run_def [of lib "FunctionNode name args"]
      run_def [of lib "ConditionalNode c e1 e2"] run_def [of lib "ArrayNode ns"]
      run_def [of lib NilNode] run_def [of lib "IdentifierNode v"]
      run_def [of lib "IntegerNode i"] run_def [of lib "FloatNode f"]
      run_def [of lib "BoolNode b"] run_def [of lib "StringNode v"]
      walk_as_run walk_nodes_as_run qb_exit_def)

lemma run_nodes_simps:
  "run_nodes lib [] s = s"
  "run_nodes lib (n # ns) s = run_nodes lib ns (run lib n s)"
  by (simp_all add: run_nodes_def [of lib "[]"] run_nodes_def [of lib "n # ns"]
      walk_as_run walk_nodes_as_run)

lemma run_nodes_progress:
  "(\<And>x b s. x \<in> set ns \<Longrightarrow> progress b s \<Longrightarrow> progress (Suc b) (run lib x s)) \<Longrightarrow>
   progress b s \<Longrightarrow> progress (b + length ns) (run_nodes lib ns s)"
proof (induction ns arbitrary: b s)
  case Nil
  then show ?case by (simp add: run_nodes_simps)
next
  case (Cons n ns)
  from Cons.prems have "progress (Suc b) (run lib n s)" by simp
  with Cons.IH [of "Suc b" "run lib n s"] Cons.prems(1) show ?case
    by (simp add: run_nodes_simps)
qed

lemma run_progress:
  assumes "sprint_ok lib"
  shows "wf_identifiers n \<Longrightarrow> progress b s \<Longrightarrow> progress (Suc b) (run lib n s)"
proof (induction n arbitrary: b s)
  case (UnaryNode op x)
  from UnaryNode.prems have "progress b (qb_enter (UnaryNode op x) s)"
    by (simp add: qb_enter_progress)
  with UnaryNode have "progress (Suc b) (run lib x (qb_enter (UnaryNode op x) s))" by simp
  then show ?case
    using qb_Exit_progress [OF assms, of "UnaryNode op x" b]
    by (simp add: run_simps wf_top_def)
next
  case (BinaryNode op l r)
  let ?n = "BinaryNode op l r"
  from BinaryNode.prems have "progress b (qb_enter ?n s)" by (simp add: qb_enter_progress)
  with BinaryNode have "progress (Suc b) (run lib l (qb_enter ?n s))" by simp
  with BinaryNode have "progress (Suc (Suc b)) (run lib r (run lib l (qb_enter ?n s)))" by simp
  then show ?case
    using qb_Exit_progress [OF assms, of ?n b] by (simp add: run_simps wf_top_def)
next
  case (MatchesNode l r)
  let ?n = "MatchesNode l r"
  from MatchesNode.prems have "progress b (qb_enter ?n s)" by (simp add: qb_enter_progress)
  with MatchesNode have "progress (Suc b) (run lib l (qb_enter ?n s))" by simp
  with MatchesNode have "progress (Suc (Suc b)) (run lib r (run lib l (qb_enter ?n s)))" by simp
  then show ?case
    using qb_Exit_progress [OF assms, of ?n b] by (simp add: run_simps wf_top_def)
next
  case (FunctionNode name args)
  let ?n = "FunctionNode name args"
  from FunctionNode.prems have "progress b (qb_enter ?n s)" by (simp add: qb_enter_progress)
  moreover have "\<And>x b s. x \<in> set args \<Longrightarrow> progress b s \<Longrightarrow> progress (Suc b) (run lib x s)"
    using FunctionNode.IH FunctionNode.prems(1) by (simp add: list_all_iff)
  ultimately have "progress (b + length args) (run_nodes lib args (qb_enter ?n s))"
    by (intro run_nodes_progress)
  then show ?case
    using qb_Exit_progress [OF assms, of ?n b] by (simp add: run_simps wf_top_def)
next
  case (ConditionalNode c e1 e2)
  let ?n = "ConditionalNode c e1 e2"
  from ConditionalNode.prems have "progress b (qb_enter ?n s)" by (simp add: qb_enter_progress)
  with ConditionalNode have "progress (Suc b) (run lib c (qb_enter ?n s))" by simp
  with ConditionalNode have "progress (Suc (Suc b)) (run lib e1 (run lib c (qb_enter ?n s)))"
    by simp
  with ConditionalNode have
    "progress (Suc (Suc (Suc b))) (run lib e2 (run lib e1 (run lib c (qb_enter ?n s))))"
    by simp
  then show ?case
    using qb_Exit_progress [OF assms, of ?n b]
    by (simp add: run_simps wf_top_def eval_nat_numeral)
next
  case (ArrayNode ns)
  let ?n = "ArrayNode ns"
  from ArrayNode.prems have "progress b (qb_enter ?n s)" by (simp add: qb_enter_progress)
  moreover have "\<And>x b s. x \<in> set ns \<Longrightarrow> progress b s \<Longrightarrow> progress (Suc b) (run lib x s)"
    using ArrayNode.IH ArrayNode.prems(1) by (simp add: list_all_iff)
  ultimately have "progress (b + length ns) (run_nodes lib ns (qb_enter ?n s))"
    by (intro run_nodes_progress)
  then show ?case
    using qb_Exit_progress [OF assms, of ?n b] by (simp add: run_simps wf_top_def)
qed (use qb_Exit_progress [OF assms] qb_enter_progress in
      \<open>force simp: run_simps wf_top_def\<close>)+

subsection \<open>The error is latched\<close>

lemma qb_Exit_after_error: "err q = Some e \<Longrightarrow> qb_Exit lib n q = Some q"
  by (simp add: qb_Exit_def)

lemma qb_enter_latched: "latched e S s \<Longrightarrow> latched e S (qb_enter n s)"
  by (cases s) (auto simp: latched_def qb_enter_def qb_Enter_def Let_def)

lemma qb_Exit_latched: "latched e S s \<Longrightarrow> latched e S (Option.bind s (qb_Exit lib n))"
  by (cases s) (auto simp: latched_def qb_Exit_after_error)

lemma run_nodes_latched:
  "(\<And>x s. x \<in> set ns \<Longrightarrow> latched e S s \<Longrightarrow> latched e S (run lib x s)) \<Longrightarrow>
   latched e S s \<Longrightarrow> latched e S (run_nodes lib ns s)"
  by (induction ns arbitrary: s) (simp_all add: run_nodes_simps)

lemma run_latched: "latched e S s \<Longrightarrow> latched e S (run lib n s)"
proof (induction n arbitrary: s)
  case (FunctionNode name args)
  then show ?case
    by (simp add: run_simps qb_Exit_latched run_nodes_latched qb_enter_latched)
next
  case (ArrayNode ns)
  then show ?case
    by (simp add: run_simps qb_Exit_latched run_nodes_latched qb_enter_latched)
qed (simp_all add: run_simps qb_Exit_latched qb_enter_latched)

lemma qb_walk_after_error:
  assumes "err q = Some e"
  shows "\<exists>q'. qb_walk lib t q = Some q' \<and> err q' = Some e \<and> stack q' = stack q"
proof -
  from assms have "latched e (stack q) (Some q)" by (simp add: latched_def)
  then have "latched e (stack q) (run lib t (Some q))" by (rule run_latched)
  then show ?thesis
    by (auto simp: latched_def run_def qb_walk_def split: option.splits)
qed

lemma qb_walk_error_in_left:
  assumes "run lib l (Some (qb_Enter (BinaryNode op l r) q)) = Some q1" "err q1 = Some e"
  shows "\<exists>q'. qb_walk lib (BinaryNode op l r) q = Some q' \<and> err q' = Some e
           \<and> stack q' = stack q1"
proof -
  from assms have "latched e (stack q1) (run lib l (qb_enter (BinaryNode op l r) (Some q)))"
    by (simp add: latched_def qb_enter_def)
  then have "latched e (stack q1) (run lib (BinaryNode op l r) (Some q))"
    by (simp add: run_simps run_latched qb_Exit_latched)
  then show ?thesis
    by (auto simp: latched_def run_def qb_walk_def split: option.splits)
qed

text \<open>
  Claim C9.  Once the error cell is set, \<^verbatim>\<open>Exit\<close> returns the visitor as it is, and the
  walk of any tree ends with the same error and the same fragment stack; so an error
  from the left operand of a binary node is the error after the walk of the right operand
  and the exit of the node.  When the walk of \<^verbatim>\<open>buildCriteria\<close> ends with an error,
  \<^verbatim>\<open>buildCriteria\<close> returns that error and no criteria, and \<^verbatim>\<open>buildQuery\<close> returns the error
  and no query.
\<close>

theorem first_error_latched:
  "(err q = Some e \<longrightarrow>
      qb_Exit lib n q = Some q
      \<and> (\<exists>q'. qb_walk lib t q = Some q' \<and> err q' = Some e \<and> stack q' = stack q))
   \<and> (qb_walk lib (rewrite_passes tree) new_queryBuilder = Some qe \<and> err qe = Some e \<longrightarrow>
        criteria_of_tree lib tree = Inl (GoError e))
   \<and> (parse f = Inr tree \<and> criteria_of_tree lib tree = Inl (GoError e) \<longrightarrow>
        buildCriteria lib parse f = Inl (GoError e)
        \<and> buildQuery lib parse region f = Inl (GoError (''overpass query error: '' @ e)))
   \<and> (run lib l (Some (qb_Enter (BinaryNode op l r) q0)) = Some q1 \<and> err q1 = Some e \<longrightarrow>
        (\<exists>q'. qb_walk lib (BinaryNode op l r) q0 = Some q' \<and> err q' = Some e
           \<and> stack q' = stack q1))"
  using qb_Exit_after_error [of q e lib n] qb_walk_after_error [of q e lib t]
    qb_walk_error_in_left [of lib l op r q0 q1 e]
  by (auto simp: criteria_of_tree_def buildCriteria_def buildQuery_def)

theorem first_error_latched_witness:
  "qb_Exit example_library (StringNode ''x'')
      \<lparr>stack = [''1''], not = [True], depth = 1, err = Some ''array not supported''\<rparr> =
     Some \<lparr>stack = [''1''], not = [True], depth = 1, err = Some ''array not supported''\<rparr>
   \<and> run example_library (ArrayNode [IntegerNode 1])
        (Some (qb_Enter (BinaryNode ''and'' (ArrayNode [IntegerNode 1])
           (UnaryNode ''not'' (StringNode ''x'')) :: int node) new_queryBuilder)) =
     Some \<lparr>stack = [''1''], not = [], depth = 0, err = Some ''array not supported''\<rparr>
   \<and> criteria_of_tree example_library
        (BinaryNode ''and'' (ArrayNode [IntegerNode 1]) (UnaryNode ''not'' (StringNode ''x'')))
      = Inl (GoError ''array not supported'')
   \<and> criteria_of_tree example_library (UnaryNode ''not'' (StringNode ''x''))
      = Inl (GoError ''inverted string not supported'')"
proof -
  let ?q = "\<lparr>stack = [''1''], not = [True], depth = 1, err = Some ''array not supported''\<rparr>"
  let ?q1 = "\<lparr>stack = [''1''], not = [], depth = 0, err = Some ''array not supported''\<rparr>"
  let ?t = "BinaryNode ''and'' (ArrayNode [IntegerNode 1]) (UnaryNode ''not'' (StringNode ''x''))
      :: int node"
  note spec = first_error_latched [of ?q "''array not supported''" example_library
      "StringNode ''x''" "StringNode ''x''" ?t ?q _ _ _ "ArrayNode [IntegerNode 1]" "''and''"
      "UnaryNode ''not'' (StringNode ''x'')" new_queryBuilder ?q1]
  from spec have 1: "qb_Exit example_library (StringNode ''x'') ?q = Some ?q" by simp
  have 2: "run example_library (ArrayNode [IntegerNode 1])
      (Some (qb_Enter ?t new_queryBuilder)) = Some ?q1"
    by (simp add: run_def qb_defs asBinaryAnd_def asBinaryOr_def asUnaryNot_def
        new_queryBuilder_def Sprint_int_def nat_digits.simps)
  with spec have "\<exists>q'. qb_walk example_library ?t new_queryBuilder = Some q'
      \<and> err q' = Some ''array not supported'' \<and> stack q' = stack ?q1"
    by simp
  have "qb_walk example_library (rewrite_passes ?t) new_queryBuilder = Some ?q"
    by (simp add: pass_defs qb_defs Sprint_int_def nat_digits.simps)
  with spec have 3: "criteria_of_tree example_library ?t =
      Inl (GoError ''array not supported'')"
    by simp
  have 4: "criteria_of_tree example_library (UnaryNode ''not'' (StringNode ''x''))
      = Inl (GoError ''inverted string not supported'')"
    by (simp add: criteria_of_tree_def pass_defs qb_defs)
  from 1 2 3 4 show ?thesis by blast
qed

subsection \<open>No panic in buildCriteria\<close>

lemma walk_nodes_wf:
  "(\<And>x s. x \<in> set ns \<Longrightarrow> wf_identifiers x \<Longrightarrow> wf_identifiers (fst (walk en ex x s))) \<Longrightarrow>
   list_all wf_identifiers ns \<Longrightarrow> list_all wf_identifiers (fst (walk_nodes en ex ns s))"
  by (induction ns arbitrary: s) (simp_all add: case_prod_beta)

lemma walk_wf:
  assumes ex: "\<And>m s. wf_identifiers m \<Longrightarrow> wf_identifiers (fst (ex m s))"
  shows "wf_identifiers n \<Longrightarrow> wf_identifiers (fst (walk en ex n s))"
proof (induction n arbitrary: s)
  case (FunctionNode name args)
  then show ?case
    using walk_nodes_wf [of args en ex] by (simp add: case_prod_beta ex)
next
  case (ArrayNode ns)
  then show ?case
    using walk_nodes_wf [of ns en ex] by (simp add: case_prod_beta ex)
qed (simp_all add: case_prod_beta ex)

lemma asBinaryIn_SomeD: "asBinaryIn n = Some (op, l, r) \<Longrightarrow> n = BinaryNode op l r"
  by (cases n) (auto simp: asBinaryIn_def split: if_splits)

lemma asBinaryAnd_SomeD: "asBinaryAnd n = Some (op, l, r) \<Longrightarrow> n = BinaryNode op l r"
  by (cases n) (auto simp: asBinaryAnd_def split: if_splits)

lemma asBinaryOr_SomeD: "asBinaryOr n = Some (op, l, r) \<Longrightarrow> n = BinaryNode op l r"
  by (cases n) (auto simp: asBinaryOr_def split: if_splits)

lemma array_loop_wf:
  "wf_identifiers left \<Longrightarrow> list_all wf_identifiers ns \<Longrightarrow> wf_identifiers cur \<Longrightarrow>
   wf_identifiers (array_loop left ns i cur)"
  by (induction ns arbitrary: i cur) simp_all

lemma expandInArray_Exit_wf: "wf_identifiers m \<Longrightarrow> wf_identifiers (expandInArray_Exit m)"
proof (cases "asBinaryIn m")
  case None
  then show "wf_identifiers m \<Longrightarrow> ?thesis" by (simp add: expandInArray_Exit_def)
next
  case (Some a)
  obtain op l r where a: "a = (op, l, r)" by (cases a)
  with Some have m: "m = BinaryNode op l r" by (simp add: asBinaryIn_SomeD)
  assume "wf_identifiers m"
  with Some a m show ?thesis
    by (cases r) (simp_all add: expandInArray_Exit_def array_loop_wf Let_def)
qed

lemma expandInRange_Exit_wf: "wf_identifiers m \<Longrightarrow> wf_identifiers (expandInRange_Exit m)"
proof (cases "asBinaryIn m")
  case None
  then show "wf_identifiers m \<Longrightarrow> ?thesis" by (simp add: expandInRange_Exit_def)
next
  case (Some a)
  obtain op l r where a: "a = (op, l, r)" by (cases a)
  with Some have m: "m = BinaryNode op l r" by (simp add: asBinaryIn_SomeD)
  assume "wf_identifiers m"
  with Some a m show ?thesis
    by (cases r) (simp_all add: expandInRange_Exit_def Let_def)
qed

lemma expandInArray_wf: "wf_identifiers n \<Longrightarrow> wf_identifiers (expandInArray n)"
  unfolding expandInArray_def by (rule walk_wf) (simp_all add: expandInArray_Exit_wf)

lemma expandInRange_wf: "wf_identifiers n \<Longrightarrow> wf_identifiers (expandInRange n)"
  unfolding expandInRange_def by (rule walk_wf) (simp_all add: expandInRange_Exit_wf)

lemma not_walk_wf:
  "wf_identifiers n \<Longrightarrow> wf_identifiers (not_Enter (n :: 'f node))"
  "wf_identifiers m \<Longrightarrow> wf_identifiers (not_walk (m :: 'f node))"
proof (induction n and m rule: not_Enter_not_walk.induct)
  case (1 node)
  then show ?case
    by (subst not_Enter.simps) (auto split: node.splits option.splits)
next
  case (2 node)
  then have e: "wf_identifiers (not_Enter node)" by simp
  show ?case
  proof (cases "not_Enter node")
    case (FunctionNode name args)
    with 2 e show ?thesis
      by (subst not_walk.simps) (auto simp: list_all_iff)
  next
    case (ArrayNode ns)
    with 2 e show ?thesis
      by (subst not_walk.simps) (auto simp: list_all_iff)
  qed (use 2 e in \<open>subst not_walk.simps, auto\<close>)+
qed

lemma dnf_Exit_wf: "wf_identifiers m \<Longrightarrow> wf_identifiers (fst (dnf_Exit m f))"
  by (auto simp: dnf_Exit_def split: option.splits
      dest!: asBinaryAnd_SomeD asBinaryOr_SomeD)

lemma dnf_round_wf: "wf_identifiers n \<Longrightarrow> wf_identifiers (fst (dnf_round n))"
  unfolding dnf_round_def by (rule walk_wf) (simp_all add: dnf_Exit_wf)

lemma toDNF_loop_wf: "wf_identifiers n \<Longrightarrow> wf_identifiers (fst (toDNF_loop limit n))"
proof (induction limit n rule: toDNF_loop.induct)
  case (1 limit node)
  show ?case
  proof (cases "limit \<ge> 0")
    case False
    with 1 show ?thesis by (simp add: toDNF_loop.simps [of limit node])
  next
    case True
    obtain node' f where r: "dnf_round node = (node', f)" by (cases "dnf_round node")
    with dnf_round_wf [OF "1.prems"] have w: "wf_identifiers node'" by simp
    show ?thesis
    proof (cases "applied f")
      case False
      with True r w show ?thesis by (simp add: toDNF_loop.simps [of limit node])
    next
      case app: True
      from "1.IH" [OF True r [symmetric] _ w] app
      have "wf_identifiers (fst (toDNF_loop (limit - 1) node'))" by simp
      with True r app show ?thesis
        by (simp add: toDNF_loop.simps [of limit node] case_prod_beta)
    qed
  qed
qed

lemma toDNF_wf: "wf_identifiers n \<Longrightarrow> wf_identifiers (toDNF n)"
  by (simp add: toDNF_def toDNF_loop_wf)

lemma wrap_criteria_Some:
  "list_all (\<lambda>x. x \<noteq> []) crits \<Longrightarrow> \<exists>r. wrap_criteria crits = Some r"
proof (induction crits)
  case Nil
  then show ?case by simp
next
  case (Cons c cs)
  then obtain r w where "wrap_criteria cs = Some r" "isWrapped c = Some w"
    using isWrapped_Some [of c] by auto
  then show ?case by simp
qed

lemma qb_walk_total:
  assumes "sprint_ok lib" "wf_identifiers n"
  shows "\<exists>q. qb_walk lib n new_queryBuilder = Some q \<and> stack_ok q"
proof -
  have "progress 0 (Some new_queryBuilder)"
    by (simp add: progress_def stack_ok_def new_queryBuilder_def)
  from run_progress [OF assms this] show ?thesis
    by (auto simp: progress_def run_def qb_walk_def split: option.splits)
qed

lemma rewrite_passes_wf: "wf_identifiers tree \<Longrightarrow> wf_identifiers (rewrite_passes tree)"
  unfolding rewrite_passes_def
  by (intro toDNF_wf not_walk_wf expandInRange_wf expandInArray_wf)

lemma criteria_of_tree_total:
  assumes "sprint_ok lib" "wf_identifiers tree"
  shows "criteria_of_tree lib tree \<noteq> Inl RuntimePanic"
proof -
  from qb_walk_total [OF assms(1) rewrite_passes_wf [OF assms(2)]] obtain q where
    q: "qb_walk lib (rewrite_passes tree) new_queryBuilder = Some q" "stack_ok q"
    by blast
  from q(2) obtain r where "wrap_criteria (stack q) = Some r"
    using wrap_criteria_Some by (auto simp: stack_ok_def)
  with q(1) show ?thesis
    by (simp add: criteria_of_tree_def split: option.splits)
qed

text \<open>
  Claim C10.  For every tree whose identifiers have a name (and with \<^verbatim>\<open>fmt.Sprint\<close> never
  returning the empty string for a float), the walk of the generator runs to its end
  without a run-time panic: no \<^verbatim>\<open>pop\<close> on an empty stack, no index into an empty string.
  This holds for the walk over any such tree, and so for \<^verbatim>\<open>buildCriteria\<close>, where the
  walk is over the tree that the rewriting walks leave and the last loop calls
  \<^verbatim>\<open>isWrapped\<close> on every criterion: the result is a list of criteria or an error.  The
  negation stack is read only behind the test of its length, in \<open>qb_Exit\<close>.
\<close>

theorem generation_never_panics:
  assumes "\<forall>x. Sprint_float lib x \<noteq> []" and "wf_identifiers tree"
  shows "qb_walk lib tree new_queryBuilder \<noteq> None
         \<and> criteria_of_tree lib tree \<noteq> Inl RuntimePanic
         \<and> (parse f = Inr tree \<longrightarrow> buildCriteria lib parse f \<noteq> Inl RuntimePanic)"
  using assms qb_walk_total [of lib tree] criteria_of_tree_total [of lib tree]
  by (auto simp: sprint_ok_def buildCriteria_def)

lemma fixed5_nonempty: "fixed5 i \<noteq> []"
  by (simp add: fixed5_def)

theorem generation_never_panics_witness:
  \<open>qb_walk example_library
      (BinaryNode ''and'' (FunctionNode ''is_tag'' [IdentifierNode ''highway''])
         (BinaryNode ''>'' (IdentifierNode ''lanes'') (FloatNode 150000)))
      new_queryBuilder \<noteq> None
   \<and> criteria_of_tree example_library
      (BinaryNode ''and'' (FunctionNode ''is_tag'' [IdentifierNode ''highway''])
         (BinaryNode ''>'' (IdentifierNode ''lanes'') (FloatNode 150000)))
      = Inr [''[highway](if:t["lanes"]>1.50000)'']\<close>
proof -
  let ?t = "BinaryNode ''and'' (FunctionNode ''is_tag'' [IdentifierNode ''highway''])
         (BinaryNode ''>'' (IdentifierNode ''lanes'') (FloatNode (150000 :: int)))"
  have 1: "\<forall>x. Sprint_float example_library x \<noteq> []"
    by (simp add: example_library_def fixed5_nonempty)
  have 2: "wf_identifiers ?t" by simp
  have 3: \<open>criteria_of_tree example_library ?t = Inr [''[highway](if:t["lanes"]>1.50000)'']\<close>
    by (simp add: criteria_of_tree_def pass_defs qb_defs example_library_def fixed5_def
        nat_digits.simps)
  from generation_never_panics [OF 1 2] 3 show ?thesis by blast
qed

text \<open>
  An identifier without a name is not a tree of the parser; on the left of a comparison
  it makes \<^verbatim>\<open>lhs[0]\<close> panic.
\<close>

lemma empty_identifier_panics:
  "criteria_of_tree lib (BinaryNode ''>'' (IdentifierNode []) (IntegerNode 3)) = Inl RuntimePanic"
  by (simp add: criteria_of_tree_def pass_defs qb_defs)

end
